theory Spec2Isabelle
  imports Main "HOL-Library.AList" "HOL-Library.Sublist"
begin

section \<open>Strings\<close>

text \<open>
  JavaScript strings are modelled as \<^typ>\<open>string\<close>: a \<^typ>\<open>char\<close> is one of the 256 code points
  U+0000 to U+00FF, so the strings of the model are the JavaScript strings made of these
  code points. A string with another code unit has no counterpart here. On the 256 code
  points the functions below are those of JavaScript.
\<close>

text \<open>The code points up to U+00FF that the regular expression class \<^verbatim>\<open>\s\<close> and
  \<^verbatim>\<open>String.prototype.trim\<close> treat as white space: tab, line feed, vertical tab, form feed,
  carriage return, space and the no-break space U+00A0.\<close>

definition isSpace :: "char \<Rightarrow> bool" where
  "isSpace c \<longleftrightarrow>
     c \<in> set [CHR 0x09, CHR 0x0A, CHR 0x0B, CHR 0x0C, CHR 0x0D, CHR 0x20, CHR 0xA0]"

text \<open>\<^verbatim>\<open>output.trim()\<close>\<close>

definition trim :: "string \<Rightarrow> string" where
  "trim s = rev (dropWhile isSpace (rev (dropWhile isSpace s)))"

text \<open>
  \<^verbatim>\<open>String.prototype.toLowerCase\<close>, one character and a whole string. Up to U+00FF the
  upper-case letters are U+0041 to U+005A (A to Z) and U+00C0 to U+00DE without the
  multiplication sign U+00D7; the lower-case letter of each is 32 code points higher.
\<close>

definition isUpper :: "char \<Rightarrow> bool" where
  "isUpper c \<longleftrightarrow>
     (let n = (of_char c :: nat)
      in (65 \<le> n \<and> n \<le> 90) \<or> (192 \<le> n \<and> n \<le> 222 \<and> n \<noteq> 215))"

definition lowerChar :: "char \<Rightarrow> char" where
  "lowerChar c = (if isUpper c then char_of ((of_char c :: nat) + 32) else c)"

definition toLowerCase :: "string \<Rightarrow> string" where
  "toLowerCase s = map lowerChar s"

text \<open>\<^verbatim>\<open>a || b\<close> on strings: the empty string is falsy.\<close>

definition js_or :: "string \<Rightarrow> string \<Rightarrow> string" where
  "js_or a b = (if a = [] then b else a)"

text \<open>Numbers inside template literals: decimal digits, a leading minus sign, and
  \<^verbatim>\<open>null\<close> for the exit code of a process that a signal ended.\<close>

definition digit :: "nat \<Rightarrow> char" where
  "digit d = ''0123456789'' ! d"

fun decimal :: "nat \<Rightarrow> string" where
  "decimal n = (if 10 \<le> n then decimal (n div 10) @ [digit (n mod 10)] else [digit n])"

definition decimal_int :: "int \<Rightarrow> string" where
  "decimal_int i = (if 0 \<le> i then decimal (nat i) else CHR ''-'' # decimal (nat (- i)))"

definition string_of_code :: "int option \<Rightarrow> string" where
  "string_of_code c = (case c of None \<Rightarrow> ''null'' | Some i \<Rightarrow> decimal_int i)"

subsection \<open>The regular expression of the e-mail check\<close>

text \<open>
  The only regular expression of the program is
  \<^verbatim>\<open>/^[^\s@]+@[^\s@]+\.[^\s@]+$/\<close>: anchored at both ends, made of literal characters
  and of character classes under \<^verbatim>\<open>+\<close>. \<open>matches\<close> is the backtracking matcher for such
  expressions, on the whole input.
\<close>

datatype regex_item = Lit char | Plus "char \<Rightarrow> bool"

fun matches :: "regex_item list \<Rightarrow> string \<Rightarrow> bool" where
  "matches [] [] = True"
| "matches [] (c # cs) = False"
| "matches (Lit l # r) [] = False"
| "matches (Lit l # r) (c # cs) = (c = l \<and> matches r cs)"
| "matches (Plus p # r) [] = False"
| "matches (Plus p # r) (c # cs) = (p c \<and> (matches r cs \<or> matches (Plus p # r) cs))"

definition notSpaceAt :: "char \<Rightarrow> bool" where
  "notSpaceAt c \<longleftrightarrow> \<not> isSpace c \<and> c \<noteq> CHR ''@''"

definition emailRegex :: "regex_item list" where
  "emailRegex = [Plus notSpaceAt, Lit CHR ''@'', Plus notSpaceAt, Lit CHR ''.'', Plus notSpaceAt]"

definition emailRegex_test :: "string \<Rightarrow> bool" where
  "emailRegex_test s = matches emailRegex s"

section \<open>The progress route: the registry of event streams\<close>

datatype status = Running | Completed | Error

text \<open>\<^verbatim>\<open>interface ProgressUpdate\<close> (and the identical \<^verbatim>\<open>ScrapingProgress\<close> of the scrape
  route). The field \<^verbatim>\<open>total\<close> is \<open>total'\<close> here.\<close>

record ProgressUpdate =
  step :: nat
  total' :: nat
  message :: string
  status :: status
  details :: "string option"

type_synonym ScrapingProgress = ProgressUpdate

text \<open>
  A \<^verbatim>\<open>ReadableStream\<close> with its controller. \<open>chunks\<close> are the records enqueued so far, in
  order: each stands for the frame \<^verbatim>\<open>data: ${JSON.stringify(update)}\n\n\<close> the subscriber
  reads. \<open>closed\<close> holds once the controller was closed or the reader cancelled: from
  then on \<^verbatim>\<open>enqueue\<close> and \<^verbatim>\<open>close\<close> throw. \<open>opened_for\<close> is the session id the \<^verbatim>\<open>GET\<close>
  handler captured for the stream's \<^verbatim>\<open>cancel\<close> callback.
\<close>

record stream =
  chunks :: "ProgressUpdate list"
  closed :: bool
  opened_for :: string

text \<open>
  The state of the server process. \<open>streams\<close> is the store of stream controllers, a
  controller's address being its index; \<open>progressStreams\<close> is the module's
  \<^verbatim>\<open>Map<string, {controller, sessionId}>\<close>, in insertion order, each entry holding the
  address of its controller; \<open>timers\<close> are the pending \<^verbatim>\<open>setTimeout\<close> callbacks of
  \<^verbatim>\<open>sendProgressUpdate\<close>, each with the entry (controller address) and session id it
  captured; \<open>spawned\<close> lists the child processes started so far, as script name and
  arguments (the command line is \<^verbatim>\<open>python <cwd>/scripts/<script> <args>\<close>); \<open>folders\<close> are
  the directories that exist.
\<close>

record state =
  streams :: "stream list"
  progressStreams :: "(string \<times> nat) list"
  timers :: "(nat \<times> string) list"
  spawned :: "(string \<times> string list) list"
  folders :: "string list"

text \<open>\<^verbatim>\<open>controller.enqueue(chunk)\<close> and \<^verbatim>\<open>controller.close()\<close>: \<open>None\<close> is the \<^verbatim>\<open>TypeError\<close>
  thrown on a stream that is closed.\<close>

definition controller_enqueue :: "stream list \<Rightarrow> nat \<Rightarrow> ProgressUpdate \<Rightarrow> stream list option" where
  "controller_enqueue ss a u =
     (if a < length ss \<and> \<not> closed (ss ! a)
      then Some (ss[a := (ss ! a)\<lparr>chunks := chunks (ss ! a) @ [u]\<rparr>])
      else None)"

definition controller_close :: "stream list \<Rightarrow> nat \<Rightarrow> stream list option" where
  "controller_close ss a =
     (if a < length ss \<and> \<not> closed (ss ! a)
      then Some (ss[a := (ss ! a)\<lparr>closed := True\<rparr>])
      else None)"

datatype get_response = BadRequest string | EventStream nat

definition connected :: ProgressUpdate where
  "connected = \<lparr>step = 0, total' = 6, message = ''Connected to progress stream'',
                 status = Running, details = None\<rparr>"

text \<open>\<^verbatim>\<open>export async function GET\<close>: the argument is the \<^verbatim>\<open>sessionId\<close> query parameter
  (\<open>None\<close> when absent); the response is the new stream.\<close>

definition GET :: "state \<Rightarrow> string option \<Rightarrow> get_response \<times> state" where
  "GET st q =
     (case q of
        None \<Rightarrow> (BadRequest ''Session ID required'', st)
      | Some sessionId \<Rightarrow>
          if sessionId = [] then (BadRequest ''Session ID required'', st)
          else
            let controller = length (streams st);
                st = st\<lparr>streams := streams st @ [\<lparr>chunks = [], closed = False, opened_for = sessionId\<rparr>]\<rparr>;
                st = st\<lparr>progressStreams := AList.update sessionId controller (progressStreams st)\<rparr>;
                st = (case controller_enqueue (streams st) controller connected of
                        None \<Rightarrow> st
                      | Some ss \<Rightarrow> st\<lparr>streams := ss\<rparr>)
            in (EventStream controller, st))"

text \<open>
  The stream's \<^verbatim>\<open>cancel()\<close> callback, run when the client of stream \<open>a\<close> disconnects: it
  deletes the registry entry of the session the stream was opened for, whichever stream
  that entry holds by then, and from then on the controller refuses every event. The
  callback also runs for a stream whose controller was closed while events were still
  unread. For an address at which there is no stream, nothing happens.
\<close>

definition cancel :: "state \<Rightarrow> nat \<Rightarrow> state" where
  "cancel st a =
     (if a < length (streams st)
      then st\<lparr>streams := (streams st)[a := (streams st ! a)\<lparr>closed := True\<rparr>],
              progressStreams := AList.delete (opened_for (streams st ! a)) (progressStreams st)\<rparr>
      else st)"

text \<open>\<^verbatim>\<open>export function sendProgressUpdate\<close>\<close>

definition sendProgressUpdate :: "state \<Rightarrow> string \<Rightarrow> ProgressUpdate \<Rightarrow> state" where
  "sendProgressUpdate st sessionId update =
     (case map_of (progressStreams st) sessionId of
        None \<Rightarrow> st
      | Some controller \<Rightarrow>
          (case controller_enqueue (streams st) controller update of
             Some ss \<Rightarrow>
               let st = st\<lparr>streams := ss\<rparr>
               in if status update = Completed \<or> status update = Error
                  then st\<lparr>timers := timers st @ [(controller, sessionId)]\<rparr>
                  else st
           | None \<Rightarrow> st\<lparr>progressStreams := AList.delete sessionId (progressStreams st)\<rparr>))"

text \<open>The callback \<^verbatim>\<open>sendProgressUpdate\<close> hands to \<^verbatim>\<open>setTimeout\<close>, run for the oldest pending
  timer. When \<^verbatim>\<open>close()\<close> throws, nothing catches it and the \<^verbatim>\<open>delete\<close> is not reached.\<close>

definition timeout :: "state \<Rightarrow> state" where
  "timeout st =
     (case timers st of
        [] \<Rightarrow> st
      | (controller, sessionId) # ts \<Rightarrow>
          (case controller_close (streams st) controller of
             None \<Rightarrow> st\<lparr>timers := ts\<rparr>
           | Some ss \<Rightarrow>
               st\<lparr>timers := ts, streams := ss,
                  progressStreams := AList.delete sessionId (progressStreams st)\<rparr>))"

text \<open>\<^verbatim>\<open>export function cleanupProgressStream\<close>\<close>

definition cleanupProgressStream :: "state \<Rightarrow> string \<Rightarrow> state" where
  "cleanupProgressStream st sessionId =
     (case map_of (progressStreams st) sessionId of
        None \<Rightarrow> st
      | Some controller \<Rightarrow>
          let st = (case controller_close (streams st) controller of
                      None \<Rightarrow> st
                    | Some ss \<Rightarrow> st\<lparr>streams := ss\<rparr>)
          in st\<lparr>progressStreams := AList.delete sessionId (progressStreams st)\<rparr>)"

section \<open>The scrape route: the orchestrator\<close>

subsection \<open>The world outside the process\<close>

text \<open>
  What another handler of the server does while a child process runs: a client opens a
  progress stream (\<^verbatim>\<open>GET\<close>), the client of a stream disconnects, or a pending timer fires.
\<close>

datatype handler = Connect "string option" | Disconnect nat | Timeout

fun handle :: "state \<Rightarrow> handler \<Rightarrow> state" where
  "handle st (Connect q) = snd (GET st q)"
| "handle st (Disconnect a) = cancel st a"
| "handle st Timeout = timeout st"

text \<open>
  One run of a child process, as the event loop sees it: the \<^verbatim>\<open>data\<close> events of its
  standard output and standard error in their order, with the other handlers that run in
  between, and then how it ends: the \<^verbatim>\<open>close\<close> event with the exit code (\<open>None\<close> is \<^verbatim>\<open>null\<close>,
  a process ended by a signal), or the \<^verbatim>\<open>error\<close> event of a child process that could not
  be spawned, with the error's message. The process is spawned with \<^verbatim>\<open>shell: true\<close>, so the
  child is a shell that runs the command line \<^verbatim>\<open>python <script> <args>\<close>: the \<^verbatim>\<open>error\<close>
  event is about the shell, and what the shell does with the command line, also when it
  cannot start \<^verbatim>\<open>python\<close>, shows in the output and the exit code. \<open>Thrown\<close> is the third
  way a call ends: the body of the promise executor throws an error with the given
  message (\<^verbatim>\<open>spawn\<close> itself throws, or the child it returns has no output stream to
  listen on); then no listener ever runs.
\<close>

datatype io_event = StdoutData string | StderrData string | Meanwhile handler

datatype exit = Close "int option" | SpawnFailed string | Thrown string

record proc =
  io :: "io_event list"
  exit :: exit

text \<open>
  Everything the program reads from outside: \<open>world\<close> gives the run of the child process
  started for a script name and argument list; \<open>resolve\<close> is \<^verbatim>\<open>path.resolve\<close>; \<open>mkdir_error\<close>
  is the message of the error \<^verbatim>\<open>fs.mkdirSync(path, {recursive: true})\<close> throws, \<open>None\<close>
  when it creates the folder; \<open>now\<close> is \<^verbatim>\<open>Date.now()\<close>; \<open>random_suffix\<close> is
  \<^verbatim>\<open>Math.random().toString(36).substr(2, 9)\<close>.
\<close>

record env =
  world :: "string \<Rightarrow> string list \<Rightarrow> proc"
  resolve :: "string \<Rightarrow> string"
  mkdir_error :: "string \<Rightarrow> string option"
  now :: nat
  random_suffix :: string

subsection \<open>\<^verbatim>\<open>class ScrapingOrchestrator\<close>\<close>

text \<open>\<^verbatim>\<open>interface ScrapingRequest\<close>\<close>

record ScrapingRequest =
  scrapeSite :: string
  productName :: string
  outputFolder :: string
  recipientEmail :: string

record ScrapingOrchestrator =
  sessionId :: string
  currentStep :: nat
  totalSteps :: nat

definition new_ScrapingOrchestrator :: "string \<Rightarrow> ScrapingOrchestrator" where
  "new_ScrapingOrchestrator sid = \<lparr>sessionId = sid, currentStep = 0, totalSteps = 6\<rparr>"

text \<open>\<^verbatim>\<open>private updateProgress\<close> (the line it writes to the console is left out).\<close>

definition updateProgress ::
  "ScrapingOrchestrator \<Rightarrow> state \<Rightarrow> string \<Rightarrow> status \<Rightarrow> string option \<Rightarrow> state" where
  "updateProgress this st msg stat det =
     (let progress = \<lparr>step = currentStep this, total' = totalSteps this, message = msg,
                       status = stat, details = det\<rparr>
      in sendProgressUpdate st (sessionId this) progress)"

text \<open>
  The listeners \<^verbatim>\<open>runPythonScript\<close> installs on the child process, applied to one event;
  the accumulator holds the state and the variables \<^verbatim>\<open>stdout\<close> and \<^verbatim>\<open>stderr\<close>.
\<close>

fun on_event ::
  "ScrapingOrchestrator \<Rightarrow> string \<Rightarrow> state \<times> string \<times> string \<Rightarrow> io_event
     \<Rightarrow> state \<times> string \<times> string" where
  "on_event this scriptName (st, stdout, stderr) (StdoutData output) =
     (updateProgress this st (''Running '' @ scriptName @ ''...'') Running (Some (trim output)),
      stdout @ output, stderr)"
| "on_event this scriptName (st, stdout, stderr) (StderrData d) = (st, stdout, stderr @ d)"
| "on_event this scriptName (st, stdout, stderr) (Meanwhile h) = (handle st h, stdout, stderr)"

text \<open>The call \<^verbatim>\<open>spawn("python", [scriptPath, ...args], ...)\<close>: the state records it.\<close>

definition spawn_python :: "state \<Rightarrow> string \<Rightarrow> string list \<Rightarrow> state" where
  "spawn_python st scriptName args = st\<lparr>spawned := spawned st @ [(scriptName, args)]\<rparr>"

text \<open>
  \<^verbatim>\<open>private runPythonScript\<close>: the promise settles as \<open>Inr stdout\<close> (resolved) or as
  \<open>Inl message\<close> (rejected with an error of that message: the \<^verbatim>\<open>new Error(message)\<close> of a
  listener, or the error thrown in the executor, with which the promise constructor
  rejects the promise).
\<close>

definition runPythonScript ::
  "env \<Rightarrow> ScrapingOrchestrator \<Rightarrow> state \<Rightarrow> string \<Rightarrow> string list \<Rightarrow> state \<times> (string + string)" where
  "runPythonScript e this st scriptName args =
     (let st = spawn_python st scriptName args;
          pythonProcess = world e scriptName args
      in case exit pythonProcess of
           Thrown msg \<Rightarrow> (st, Inl msg)
         | Close code \<Rightarrow>
             let (st, stdout, stderr) =
                   foldl (on_event this scriptName) (st, [], []) (io pythonProcess)
             in if code = Some 0 then (st, Inr stdout)
                else (st, Inl (''Script '' @ scriptName @ '' failed with code ''
                               @ string_of_code code @ ''. Error: '' @ stderr))
         | SpawnFailed msg \<Rightarrow>
             let (st, stdout, stderr) =
                   foldl (on_event this scriptName) (st, [], []) (io pythonProcess)
             in (st, Inl (''Failed to start script '' @ scriptName @ '': '' @ msg)))"

text \<open>
  \<^verbatim>\<open>await\<close> inside the \<^verbatim>\<open>try\<close> block of \<^verbatim>\<open>runWorkflow\<close>: a rejected promise leaves the block
  with its message, a resolved one goes on with the statements after it.
\<close>

type_synonym 'a settled = "ScrapingOrchestrator \<times> state \<times> (string + 'a)"

definition await ::
  "'a settled \<Rightarrow> (ScrapingOrchestrator \<Rightarrow> state \<Rightarrow> 'b settled) \<Rightarrow> 'b settled" where
  "await p k = (case p of (this, st, Inl err) \<Rightarrow> (this, st, Inl err)
                        | (this, st, Inr v) \<Rightarrow> k this st)"

text \<open>The six blocks of the \<^verbatim>\<open>try\<close> block, named by their comments in the source.\<close>

definition step1_product_analysis ::
  "env \<Rightarrow> ScrapingRequest \<Rightarrow> ScrapingOrchestrator \<Rightarrow> state \<Rightarrow> string settled" where
  "step1_product_analysis e params this st =
     (let this = this\<lparr>currentStep := 1\<rparr>;
          st = updateProgress this st ''Starting product analysis and scraping...'' Running None;
          site = toLowerCase (js_or (scrapeSite params) [])
      in if site = ''blinkit''
         then (this, runPythonScript e this st ''blinkit.py''
                 [''--brand'', productName params, ''--out-dir'', outputFolder params, ''--images''])
         else (this, runPythonScript e this st ''product_analyzer.py''
                 [scrapeSite params, productName params, outputFolder params]))"

text \<open>The second block reads the variable \<^verbatim>\<open>site\<close> the first one set; a block in which no
  promise is awaited goes on as after a resolved one.\<close>

definition step2_image_scraping ::
  "env \<Rightarrow> ScrapingRequest \<Rightarrow> ScrapingOrchestrator \<Rightarrow> state \<Rightarrow> string settled" where
  "step2_image_scraping e params this st =
     (let site = toLowerCase (js_or (scrapeSite params) []);
          this = this\<lparr>currentStep := 2\<rparr>
      in if site = ''blinkit''
         then (this,
               updateProgress this st
                 ''Blinkit: Product analysis and image scraping completed (steps 1 & 2)'' Running None,
               Inr [])
         else
           let st = updateProgress this st ''Scraping product images...'' Running None
           in (this, runPythonScript e this st ''image_scraper.py'' [outputFolder params]))"

definition step3_text_extraction ::
  "env \<Rightarrow> ScrapingRequest \<Rightarrow> ScrapingOrchestrator \<Rightarrow> state \<Rightarrow> string settled" where
  "step3_text_extraction e params this st =
     (let this = this\<lparr>currentStep := 3\<rparr>;
          st = updateProgress this st ''Extracting text from images using AI...'' Running None
      in (this, runPythonScript e this st ''text_extractor.py'' [outputFolder params]))"

definition step4_qr_code_detection ::
  "env \<Rightarrow> ScrapingRequest \<Rightarrow> ScrapingOrchestrator \<Rightarrow> state \<Rightarrow> string settled" where
  "step4_qr_code_detection e params this st =
     (let this = this\<lparr>currentStep := 4\<rparr>;
          st = updateProgress this st ''Detecting QR codes and barcodes...'' Running None
      in (this, runPythonScript e this st ''qr_orchestrator.py'' [outputFolder params]))"

definition step5_data_merging ::
  "env \<Rightarrow> ScrapingRequest \<Rightarrow> ScrapingOrchestrator \<Rightarrow> state \<Rightarrow> string settled" where
  "step5_data_merging e params this st =
     (let this = this\<lparr>currentStep := 5\<rparr>;
          st = updateProgress this st ''Merging data and checking credentials...'' Running None
      in (this, runPythonScript e this st ''credential_check.py'' [outputFolder params]))"

definition step6_email_report ::
  "env \<Rightarrow> ScrapingRequest \<Rightarrow> ScrapingOrchestrator \<Rightarrow> state \<Rightarrow> string settled" where
  "step6_email_report e params this st =
     (let this = this\<lparr>currentStep := 6\<rparr>;
          st = updateProgress this st ''Sending email report...'' Running None
      in (this, runPythonScript e this st ''exception_reporter.py''
            [outputFolder params, recipientEmail params]))"

text \<open>The \<^verbatim>\<open>try\<close> block of \<^verbatim>\<open>runWorkflow\<close>.\<close>

definition runWorkflow_try ::
  "env \<Rightarrow> ScrapingRequest \<Rightarrow> ScrapingOrchestrator \<Rightarrow> state \<Rightarrow> unit settled" where
  "runWorkflow_try e params this st =
     await (step1_product_analysis e params this st) (\<lambda>this st.
     await (step2_image_scraping e params this st) (\<lambda>this st.
     await (step3_text_extraction e params this st) (\<lambda>this st.
     await (step4_qr_code_detection e params this st) (\<lambda>this st.
     await (step5_data_merging e params this st) (\<lambda>this st.
     await (step6_email_report e params this st) (\<lambda>this st.
       (this, updateProgress this st ''All tasks completed successfully!'' Completed None,
        Inr ())))))))"

text \<open>\<^verbatim>\<open>async runWorkflow\<close>: the \<^verbatim>\<open>catch\<close> block reports the error and throws it again.\<close>

definition runWorkflow ::
  "env \<Rightarrow> ScrapingOrchestrator \<Rightarrow> state \<Rightarrow> ScrapingRequest \<Rightarrow> unit settled" where
  "runWorkflow e this st params =
     (case runWorkflow_try e params this st of
        (this, st, Inl err) \<Rightarrow> (this, updateProgress this st (''Error: '' @ err) Error None, Inl err)
      | (this, st, Inr v) \<Rightarrow> (this, st, Inr v))"

subsection \<open>\<^verbatim>\<open>export async function POST\<close>\<close>

text \<open>The JSON body of the request: a field that is absent is \<open>None\<close>.\<close>

record body =
  body_scrapeSite :: "string option"
  body_productName :: "string option"
  body_outputFolder :: "string option"
  body_recipientEmail :: "string option"

text \<open>\<^verbatim>\<open>!field\<close>: an absent field and the empty string are falsy.\<close>

definition falsy :: "string option \<Rightarrow> bool" where
  "falsy f \<longleftrightarrow> f = None \<or> f = Some []"

datatype response = ErrorResponse nat string | Success string string

definition supportedSites :: "string list" where
  "supportedSites = [''amazon'', ''blinkit'']"

definition make_sessionId :: "env \<Rightarrow> string" where
  "make_sessionId e = ''scrape_'' @ decimal (now e) @ ''_'' @ random_suffix e"

text \<open>
  \<^verbatim>\<open>orchestrator.runWorkflow(updatedBody).catch(...)\<close>, the run in the background, from its
  start to the state it leaves when the promise has settled and the \<^verbatim>\<open>catch\<close> callback has
  run.
\<close>

definition run_in_background :: "env \<Rightarrow> string \<Rightarrow> state \<Rightarrow> ScrapingRequest \<Rightarrow> state" where
  "run_in_background e sid st updatedBody =
     (case runWorkflow e (new_ScrapingOrchestrator sid) st updatedBody of
        (this, st, Inl err) \<Rightarrow>
          sendProgressUpdate st sid
            \<lparr>step = 0, total' = 6, message = ''Workflow failed: '' @ err, status = Error,
             details = None\<rparr>
      | (this, st, Inr v) \<Rightarrow> st)"

text \<open>
  \<^verbatim>\<open>if (!fs.existsSync(resolvedOutputFolder)) { try { fs.mkdirSync(...) } catch ... }\<close>:
  \<open>Inl\<close> is the message of the error caught, \<open>Inr\<close> the state in which the folder exists.
\<close>

definition create_output_folder :: "env \<Rightarrow> state \<Rightarrow> string \<Rightarrow> string + state" where
  "create_output_folder e st resolvedOutputFolder =
     (if resolvedOutputFolder \<notin> set (folders st)
      then (case mkdir_error e resolvedOutputFolder of
              None \<Rightarrow> Inr (st\<lparr>folders := resolvedOutputFolder # folders st\<rparr>)
            | Some msg \<Rightarrow> Inl msg)
      else Inr st)"

text \<open>
  The handler: the argument is the parsed body, \<open>None\<close> when \<^verbatim>\<open>request.json()\<close> throws. The
  state returned is the one the server is in once the background run has ended; the
  response is sent before, when the run reaches its first \<^verbatim>\<open>await\<close>.
\<close>

definition POST :: "env \<Rightarrow> state \<Rightarrow> body option \<Rightarrow> response \<times> state" where
  "POST e st request =
     (case request of
        None \<Rightarrow> (ErrorResponse 500 ''Internal server error'', st)
      | Some b \<Rightarrow>
          if falsy (body_scrapeSite b) \<or> falsy (body_productName b) \<or> falsy (body_outputFolder b)
             \<or> falsy (body_recipientEmail b)
          then (ErrorResponse 400 ''Missing required fields'', st)
          else
            let params = \<lparr>scrapeSite = the (body_scrapeSite b), productName = the (body_productName b),
                           outputFolder = the (body_outputFolder b),
                           recipientEmail = the (body_recipientEmail b)\<rparr>
            in if \<not> emailRegex_test (recipientEmail params)
               then (ErrorResponse 400 ''Invalid email format'', st)
               else
                 let selectedSite = toLowerCase (js_or (scrapeSite params) [])
                 in if selectedSite \<notin> set supportedSites
                    then (ErrorResponse 400 ''Supported sites are: Amazon, Blinkit'', st)
                    else
                      let resolvedOutputFolder = resolve e (outputFolder params)
                      in (case create_output_folder e st resolvedOutputFolder of
                            Inl msg \<Rightarrow>
                              (ErrorResponse 400
                                 (''Failed to create output folder at '' @ [CHR 0x22]
                                  @ resolvedOutputFolder @ [CHR 0x22] @ '': '' @ msg), st)
                          | Inr st \<Rightarrow>
                              let sid = make_sessionId e;
                                  updatedBody = params\<lparr>outputFolder := resolvedOutputFolder\<rparr>
                              in (Success sid
                                    (''Scraping workflow started successfully. ''
                                     @ ''You will receive an email when complete.''),
                                  run_in_background e sid st updatedBody)))"

text \<open>
  The server in which the call \<^verbatim>\<open>runWorkflow(updatedBody)\<close> returns its promise: an
  \<^verbatim>\<open>async\<close> function runs until its first \<^verbatim>\<open>await\<close>, here the one of the first script. By
  then step 1 is reported and the first child process is spawned (the promise executor
  of \<^verbatim>\<open>runPythonScript\<close> has run); the listeners of the child process, the rest of the
  workflow and the \<^verbatim>\<open>catch\<close> block run later.
\<close>

definition runWorkflow_suspended :: "ScrapingOrchestrator \<Rightarrow> state \<Rightarrow> ScrapingRequest \<Rightarrow> state" where
  "runWorkflow_suspended this st params =
     (let this = this\<lparr>currentStep := 1\<rparr>;
          st = updateProgress this st ''Starting product analysis and scraping...'' Running None;
          site = toLowerCase (js_or (scrapeSite params) [])
      in if site = ''blinkit''
         then spawn_python st ''blinkit.py''
                [''--brand'', productName params, ''--out-dir'', outputFolder params, ''--images'']
         else spawn_python st ''product_analyzer.py''
                [scrapeSite params, productName params, outputFolder params])"

text \<open>
  The server at the moment \<^verbatim>\<open>POST\<close> returns its response. A request that is rejected
  leaves the server as it was. For one that is accepted the output folder exists, and
  \<^verbatim>\<open>POST\<close> has called \<^verbatim>\<open>runWorkflow\<close>, received its promise, attached the \<^verbatim>\<open>catch\<close> callback
  and returned: the run has gone as far as its first \<^verbatim>\<open>await\<close>.
\<close>

definition POST_returned :: "env \<Rightarrow> state \<Rightarrow> body option \<Rightarrow> state" where
  "POST_returned e st request =
     (case fst (POST e st request) of
        ErrorResponse code msg \<Rightarrow> st
      | Success sid msg \<Rightarrow>
          let b = the request;
              resolvedOutputFolder = resolve e (the (body_outputFolder b));
              st = (case create_output_folder e st resolvedOutputFolder of
                      Inl err \<Rightarrow> st
                    | Inr st \<Rightarrow> st);
              updatedBody = \<lparr>scrapeSite = the (body_scrapeSite b),
                             productName = the (body_productName b),
                             outputFolder = resolvedOutputFolder,
                             recipientEmail = the (body_recipientEmail b)\<rparr>
          in runWorkflow_suspended (new_ScrapingOrchestrator sid) st updatedBody)"

text \<open>The three checks of \<^verbatim>\<open>POST\<close> on the body all pass: no field is falsy, the e-mail
  address matches the regular expression, the site in lower case is a supported one.\<close>

definition valid_body :: "body \<Rightarrow> bool" where
  "valid_body b \<longleftrightarrow>
     \<not> falsy (body_scrapeSite b) \<and> \<not> falsy (body_productName b) \<and>
     \<not> falsy (body_outputFolder b) \<and> \<not> falsy (body_recipientEmail b) \<and>
     emailRegex_test (the (body_recipientEmail b)) \<and>
     toLowerCase (the (body_scrapeSite b)) \<in> set supportedSites"

section \<open>The stage list of the workflow\<close>

text \<open>
  The \<^verbatim>\<open>try\<close> block of \<^verbatim>\<open>runWorkflow\<close> walks a fixed list of stages. A stage either sets the
  step, reports a message and awaits one script (\<open>Task\<close>: step, message, script name,
  arguments), or sets the step and reports a message only (\<open>Note\<close>). \<open>pipeline\<close> is the
  list for a request, \<open>run_stages\<close> walks any such list; \<open>runWorkflow_try_eq\<close> below proves
  that the \<^verbatim>\<open>try\<close> block is \<open>run_stages\<close> on \<open>pipeline\<close> followed by the final report.
\<close>

datatype stage = Task nat string string "string list" | Note nat string

fun stage_step :: "stage \<Rightarrow> nat" where
  "stage_step (Task n msg script args) = n"
| "stage_step (Note n msg) = n"

fun stage_tasks :: "stage \<Rightarrow> (string \<times> string list) list" where
  "stage_tasks (Task n msg script args) = [(script, args)]"
| "stage_tasks (Note n msg) = []"

fun stage_scripts :: "stage \<Rightarrow> string list" where
  "stage_scripts (Task n msg script args) = [script]"
| "stage_scripts (Note n msg) = []"

definition pipeline :: "ScrapingRequest \<Rightarrow> stage list" where
  "pipeline params =
     (if toLowerCase (js_or (scrapeSite params) []) = ''blinkit''
      then [Task 1 ''Starting product analysis and scraping...'' ''blinkit.py''
              [''--brand'', productName params, ''--out-dir'', outputFolder params, ''--images''],
            Note 2 ''Blinkit: Product analysis and image scraping completed (steps 1 & 2)'']
      else [Task 1 ''Starting product analysis and scraping...'' ''product_analyzer.py''
              [scrapeSite params, productName params, outputFolder params],
            Task 2 ''Scraping product images...'' ''image_scraper.py'' [outputFolder params]])
     @ [Task 3 ''Extracting text from images using AI...'' ''text_extractor.py'' [outputFolder params],
        Task 4 ''Detecting QR codes and barcodes...'' ''qr_orchestrator.py'' [outputFolder params],
        Task 5 ''Merging data and checking credentials...'' ''credential_check.py''
          [outputFolder params],
        Task 6 ''Sending email report...'' ''exception_reporter.py''
          [outputFolder params, recipientEmail params]]"

fun run_stage :: "env \<Rightarrow> stage \<Rightarrow> ScrapingOrchestrator \<Rightarrow> state \<Rightarrow> string settled" where
  "run_stage e (Task n msg script args) this st =
     (let this = this\<lparr>currentStep := n\<rparr>;
          st = updateProgress this st msg Running None
      in (this, runPythonScript e this st script args))"
| "run_stage e (Note n msg) this st =
     (let this = this\<lparr>currentStep := n\<rparr>
      in (this, updateProgress this st msg Running None, Inr []))"

fun run_stages :: "env \<Rightarrow> stage list \<Rightarrow> ScrapingOrchestrator \<Rightarrow> state \<Rightarrow> unit settled" where
  "run_stages e [] this st = (this, st, Inr ())"
| "run_stages e (s # ss) this st = await (run_stage e s this st) (run_stages e ss)"

text \<open>
  Two stages are alike in a world when they are at the same step with the same message
  and, if they have a task, run the same script and the world runs the same process for
  the arguments of the one and of the other.
\<close>

fun alike :: "env \<Rightarrow> stage \<Rightarrow> stage \<Rightarrow> bool" where
  "alike e (Task n msg script args) (Task n' msg' script' args') =
     (n = n' \<and> msg = msg' \<and> script = script' \<and> world e script args = world e script' args')"
| "alike e (Note n msg) (Note n' msg') = (n = n' \<and> msg = msg')"
| "alike e (Task n msg script args) (Note n' msg') = False"
| "alike e (Note n msg) (Task n' msg' script' args') = False"

section \<open>What a subscriber observes\<close>

text \<open>
  \<open>chunks_at st a\<close> are the events stream \<open>a\<close> has received in state \<open>st\<close> (none for an
  address that is not allocated yet); \<open>received st st' a\<close> are those it received between
  \<open>st\<close> and a later state \<open>st'\<close>. Stream \<open>a\<close> is \<open>subscribed\<close> to a session when the
  registry maps the session id to it and it is open: the events published for the
  session reach it.
\<close>

definition chunks_at :: "state \<Rightarrow> nat \<Rightarrow> ProgressUpdate list" where
  "chunks_at st a = (if a < length (streams st) then chunks (streams st ! a) else [])"

definition received :: "state \<Rightarrow> state \<Rightarrow> nat \<Rightarrow> ProgressUpdate list" where
  "received st st' a = drop (length (chunks_at st a)) (chunks_at st' a)"

definition subscribed :: "state \<Rightarrow> string \<Rightarrow> nat \<Rightarrow> bool" where
  "subscribed st sid a \<longleftrightarrow>
     map_of (progressStreams st) sid = Some a \<and> a < length (streams st) \<and> \<not> closed (streams st ! a)"

text \<open>
  The relation between the states before and after a stretch of the run in which the
  orchestrator is at steps \<open>lo\<close> to \<open>hi\<close>: no stream is removed, every stream keeps what it
  had, and what it received is in step order and made of running events of total 6 at
  steps from \<open>lo\<close> to \<open>hi\<close>, but for the events at step 0 of a stream opened meanwhile.
\<close>

definition run_rel :: "nat \<Rightarrow> nat \<Rightarrow> state \<Rightarrow> state \<Rightarrow> bool" where
  "run_rel lo hi st st' \<longleftrightarrow>
     length (streams st) \<le> length (streams st') \<and>
     (\<forall>a. chunks_at st' a = chunks_at st a @ received st st' a \<and>
          sorted (map step (received st st' a)) \<and>
          (\<forall>u\<in>set (received st st' a).
             status u = Running \<and> total' u = 6 \<and> step u \<le> hi \<and>
             (lo \<le> step u \<or> \<not> a < length (streams st) \<and> step u = 0)))"

text \<open>The output a child process wrote, as \<^verbatim>\<open>runPythonScript\<close> accumulates it.\<close>

fun captured_stdout :: "io_event list \<Rightarrow> string" where
  "captured_stdout [] = []"
| "captured_stdout (StdoutData d # evs) = d @ captured_stdout evs"
| "captured_stdout (ev # evs) = captured_stdout evs"

fun captured_stderr :: "io_event list \<Rightarrow> string" where
  "captured_stderr [] = []"
| "captured_stderr (StderrData d # evs) = d @ captured_stderr evs"
| "captured_stderr (ev # evs) = captured_stderr evs"

text \<open>
  What the run of a script, of a stage and of a stage list settles to, and the stages of
  a list the run reaches (up to the first one that fails), read off the outside world
  alone.
\<close>

definition script_result :: "env \<Rightarrow> string \<Rightarrow> string list \<Rightarrow> string + string" where
  "script_result e scriptName args =
     (case exit (world e scriptName args) of
        Close code \<Rightarrow>
          if code = Some 0 then Inr (captured_stdout (io (world e scriptName args)))
          else Inl (''Script '' @ scriptName @ '' failed with code '' @ string_of_code code
                    @ ''. Error: '' @ captured_stderr (io (world e scriptName args)))
      | SpawnFailed msg \<Rightarrow> Inl (''Failed to start script '' @ scriptName @ '': '' @ msg)
      | Thrown msg \<Rightarrow> Inl msg)"

fun stage_result :: "env \<Rightarrow> stage \<Rightarrow> string + string" where
  "stage_result e (Task n msg script args) = script_result e script args"
| "stage_result e (Note n msg) = Inr []"

text \<open>The task of a stage succeeds when its child process closes with exit code 0; a
  stage without a task has nothing that can fail.\<close>

fun stage_ok :: "env \<Rightarrow> stage \<Rightarrow> bool" where
  "stage_ok e (Task n msg script args) = (exit (world e script args) = Close (Some 0))"
| "stage_ok e (Note n msg) = True"

fun stages_result :: "env \<Rightarrow> stage list \<Rightarrow> string + unit" where
  "stages_result e [] = Inr ()"
| "stages_result e (s # ss) =
     (case stage_result e s of Inl err \<Rightarrow> Inl err | Inr v \<Rightarrow> stages_result e ss)"

fun attempted :: "env \<Rightarrow> stage list \<Rightarrow> stage list" where
  "attempted e [] = []"
| "attempted e (s # ss) =
     s # (case stage_result e s of Inl err \<Rightarrow> [] | Inr v \<Rightarrow> attempted e ss)"

text \<open>
  The event \<^verbatim>\<open>runWorkflow\<close> reports last, at the step it has reached: the one of the
  \<^verbatim>\<open>catch\<close> block when a promise was rejected with message \<open>err\<close>, the one that ends the
  \<^verbatim>\<open>try\<close> block otherwise. \<open>fallback_event\<close> is the event of the \<^verbatim>\<open>catch\<close> callback in \<^verbatim>\<open>POST\<close>.
\<close>

definition terminal_event :: "nat \<Rightarrow> string + unit \<Rightarrow> ProgressUpdate" where
  "terminal_event k r =
     (case r of
        Inl err \<Rightarrow> \<lparr>step = k, total' = 6, message = ''Error: '' @ err, status = Error,
                    details = None\<rparr>
      | Inr v \<Rightarrow> \<lparr>step = k, total' = 6, message = ''All tasks completed successfully!'',
                  status = Completed, details = None\<rparr>)"

definition fallback_event :: "string \<Rightarrow> ProgressUpdate" where
  "fallback_event err = \<lparr>step = 0, total' = 6, message = ''Workflow failed: '' @ err,
                          status = Error, details = None\<rparr>"

text \<open>The server when the modules are loaded: no stream, an empty registry.\<close>

definition initial_state :: state where
  "initial_state = \<lparr>streams = [], progressStreams = [], timers = [], spawned = [], folders = []\<rparr>"

section \<open>Example requests and worlds\<close>

text \<open>A world in which every script prints one line and exits with code 0, the folder
  can be created, the clock reads 5 and the random suffix is \<open>abc\<close>.\<close>

definition env_ok :: env where
  "env_ok = \<lparr>world = (\<lambda>script args. \<lparr>io = [StdoutData ''ok ''], exit = Close (Some 0)\<rparr>),
             resolve = (\<lambda>p. p), mkdir_error = (\<lambda>p. None), now = 5, random_suffix = ''abc''\<rparr>"

text \<open>The same world, but \<^verbatim>\<open>product_analyzer.py\<close> fails: while it runs a client subscribes to
  the session, then the script prints a line, writes \<open>boom\<close> to its standard error and
  exits with code 1.\<close>

definition env_fail :: env where
  "env_fail = env_ok\<lparr>world := (\<lambda>script args.
       if script = ''product_analyzer.py''
       then \<lparr>io = [Meanwhile (Connect (Some ''scrape_5_abc'')), StdoutData ''hi '', StderrData ''boom''],
             exit = Close (Some 1)\<rparr>
       else \<lparr>io = [StdoutData ''ok ''], exit = Close (Some 0)\<rparr>)\<rparr>"

text \<open>The world of \<open>env_ok\<close> in which the given script writes \<open>boom\<close> to its standard error
  and exits with code 1.\<close>

definition env_failing :: "string \<Rightarrow> env" where
  "env_failing script = env_ok\<lparr>world := (\<lambda>s args.
       if s = script then \<lparr>io = [StderrData ''boom''], exit = Close (Some 1)\<rparr>
       else \<lparr>io = [StdoutData ''ok ''], exit = Close (Some 0)\<rparr>)\<rparr>"

text \<open>The world of \<open>env_ok\<close> in which \<^verbatim>\<open>product_analyzer.py\<close> knows the site \<open>amazon\<close> in
  lower case only: for any other first argument it exits with code 2.\<close>

definition env_case_sensitive :: env where
  "env_case_sensitive = env_ok\<lparr>world := (\<lambda>script args.
       if script = ''product_analyzer.py'' \<and> take 1 args \<noteq> [''amazon'']
       then \<lparr>io = [StderrData ''unknown site''], exit = Close (Some 2)\<rparr>
       else \<lparr>io = [StdoutData ''ok ''], exit = Close (Some 0)\<rparr>)\<rparr>"

text \<open>The world of \<open>env_ok\<close> in which no folder can be created.\<close>

definition env_readonly :: env where
  "env_readonly = env_ok\<lparr>mkdir_error := (\<lambda>p. Some ''EACCES: permission denied'')\<rparr>"

definition body_amazon :: body where
  "body_amazon = \<lparr>body_scrapeSite = Some ''Amazon'', body_productName = Some ''tea'',
                  body_outputFolder = Some ''/out'', body_recipientEmail = Some ''a@b.c''\<rparr>"

definition body_blinkit :: body where
  "body_blinkit = \<lparr>body_scrapeSite = Some ''BLINKIT'', body_productName = Some ''tea'',
                   body_outputFolder = Some ''/out'', body_recipientEmail = Some ''a@b.c''\<rparr>"

definition params_amazon :: ScrapingRequest where
  "params_amazon = \<lparr>scrapeSite = ''Amazon'', productName = ''tea'', outputFolder = ''/out'',
                    recipientEmail = ''a@b.c''\<rparr>"

definition params_blinkit :: ScrapingRequest where
  "params_blinkit = \<lparr>scrapeSite = ''BLINKIT'', productName = ''tea'', outputFolder = ''/out'',
                     recipientEmail = ''a@b.c''\<rparr>"

text \<open>A server in which the folder \<^verbatim>\<open>/out\<close> exists, and one in which a client has subscribed
  to the session \<open>scrape_5_abc\<close> as well.\<close>

definition state_out :: state where
  "state_out = initial_state\<lparr>folders := [''/out'']\<rparr>"

definition state_subscribed :: state where
  "state_subscribed = snd (GET state_out (Some ''scrape_5_abc''))"

text \<open>The world of \<open>env_ok\<close> in which not even the shell can be spawned: every child
  process emits the \<^verbatim>\<open>error\<close> event.\<close>

definition env_nospawn :: env where
  "env_nospawn = env_ok\<lparr>world := (\<lambda>script args. \<lparr>io = [], exit = SpawnFailed ''spawn ENOENT''\<rparr>)\<rparr>"

text \<open>The world of \<open>env_ok\<close> on a machine without \<^verbatim>\<open>python\<close>: the interpreter cannot be
  started. The child process, the shell, starts, does not find the command, says so on
  its standard error and closes with code 127.\<close>

definition env_nopython :: env where
  "env_nopython = env_ok\<lparr>world := (\<lambda>script args.
       \<lparr>io = [StderrData ''/bin/sh: 1: python: not found''], exit = Close (Some 127)\<rparr>)\<rparr>"

text \<open>The world of \<open>env_ok\<close> in which \<^verbatim>\<open>spawn\<close> throws.\<close>

definition env_throws :: env where
  "env_throws = env_ok\<lparr>world := (\<lambda>script args. \<lparr>io = [], exit = Thrown ''spawn E2BIG''\<rparr>)\<rparr>"

text \<open>A server whose registry still holds, for the session, a stream that is closed.\<close>

definition state_stale :: state where
  "state_stale = state_subscribed\<lparr>streams :=
     [\<lparr>chunks = [connected], closed = True, opened_for = ''scrape_5_abc''\<rparr>]\<rparr>"

text \<open>
  The run of \<open>body_amazon\<close> in the world \<open>env_fail\<close>, on the server \<open>state_out\<close>: the message
  of the rejected promise, the server when \<^verbatim>\<open>product_analyzer.py\<close> has closed, and the
  server when the run has ended.
\<close>

definition failure_message :: string where
  "failure_message = ''Script product_analyzer.py failed with code 1. Error: boom''"

definition state_failed1 :: state where
  "state_failed1 =
     \<lparr>streams = [\<lparr>chunks = [connected,
          \<lparr>step = 1, total' = 6, message = ''Running product_analyzer.py...'', status = Running,
           details = Some ''hi''\<rparr>], closed = False, opened_for = ''scrape_5_abc''\<rparr>],
      progressStreams = [(''scrape_5_abc'', 0)], timers = [],
      spawned = [(''product_analyzer.py'', [''Amazon'', ''tea'', ''/out''])],
      folders = [''/out'']\<rparr>"

definition state_failed :: state where
  "state_failed = state_failed1\<lparr>
     streams := [\<lparr>chunks = chunks (streams state_failed1 ! 0)
          @ [terminal_event 1 (Inl failure_message), fallback_event failure_message],
        closed = False, opened_for = ''scrape_5_abc''\<rparr>],
     timers := [(0, ''scrape_5_abc''), (0, ''scrape_5_abc'')]\<rparr>"

text \<open>A world is quiet when no other handler runs while a child process does.\<close>

definition quiet :: "env \<Rightarrow> bool" where
  "quiet e \<longleftrightarrow> (\<forall>script args h. Meanwhile h \<notin> set (io (world e script args)))"

section \<open>The try block walks the stage list\<close>

lemma await_Inl [simp]: "await (this, st, Inl err) k = (this, st, Inl err)"
  by (simp add: await_def)

lemma await_Inr [simp]: "await (this, st, Inr v) k = k this st"
  by (simp add: await_def)

lemma await_assoc:
  "await (await p k1) k2 = await p (\<lambda>this st. await (k1 this st) k2)"
  by (cases p; cases "snd (snd p)") (auto simp: await_def)

lemma step1_eq: "step1_product_analysis e params = run_stage e (pipeline params ! 0)"
  by (simp add: pipeline_def step1_product_analysis_def fun_eq_iff Let_def)

lemma step2_eq: "step2_image_scraping e params = run_stage e (pipeline params ! 1)"
  by (simp add: pipeline_def step2_image_scraping_def fun_eq_iff Let_def)

lemma step3_eq: "step3_text_extraction e params = run_stage e (pipeline params ! 2)"
  by (simp add: pipeline_def step3_text_extraction_def fun_eq_iff)

lemma step4_eq: "step4_qr_code_detection e params = run_stage e (pipeline params ! 3)"
  by (simp add: pipeline_def step4_qr_code_detection_def fun_eq_iff)

lemma step5_eq: "step5_data_merging e params = run_stage e (pipeline params ! 4)"
  by (simp add: pipeline_def step5_data_merging_def fun_eq_iff)

lemma step6_eq: "step6_email_report e params = run_stage e (pipeline params ! 5)"
  by (simp add: pipeline_def step6_email_report_def fun_eq_iff)

lemma pipeline_nths:
  "pipeline params = [pipeline params ! 0, pipeline params ! 1, pipeline params ! 2,
     pipeline params ! 3, pipeline params ! 4, pipeline params ! 5]"
  by (simp add: pipeline_def)

lemma run_stages_six:
  "await (run_stages e [s1, s2, s3, s4, s5, s6] this st) k =
     await (run_stage e s1 this st) (\<lambda>this st.
     await (run_stage e s2 this st) (\<lambda>this st.
     await (run_stage e s3 this st) (\<lambda>this st.
     await (run_stage e s4 this st) (\<lambda>this st.
     await (run_stage e s5 this st) (\<lambda>this st.
     await (run_stage e s6 this st) k)))))"
  by (simp add: await_assoc)

lemma runWorkflow_try_eq:
  "runWorkflow_try e params this st =
     await (run_stages e (pipeline params) this st) (\<lambda>this st.
       (this, updateProgress this st ''All tasks completed successfully!'' Completed None, Inr ()))"
  by (subst pipeline_nths, subst run_stages_six)
     (simp only: runWorkflow_try_def step1_eq step2_eq step3_eq step4_eq step5_eq step6_eq)

subsection \<open>What the run leaves alone\<close>

lemma sendProgressUpdate_frame [simp]:
  "spawned (sendProgressUpdate st sid u) = spawned st"
  "folders (sendProgressUpdate st sid u) = folders st"
  "length (streams (sendProgressUpdate st sid u)) = length (streams st)"
  by (auto simp: sendProgressUpdate_def controller_enqueue_def Let_def split: option.splits)

lemma updateProgress_frame [simp]:
  "spawned (updateProgress this st m s d) = spawned st"
  "folders (updateProgress this st m s d) = folders st"
  "length (streams (updateProgress this st m s d)) = length (streams st)"
  by (simp_all add: updateProgress_def)

lemma handle_frame [simp]:
  "spawned (handle st h) = spawned st"
  "folders (handle st h) = folders st"
  by (cases h; auto simp: GET_def cancel_def timeout_def controller_enqueue_def controller_close_def
        Let_def split: option.splits list.splits)+

lemma foldl_on_event_frame:
  "spawned (fst (foldl (on_event this n) (st, out, err) evs)) = spawned st \<and>
   folders (fst (foldl (on_event this n) (st, out, err) evs)) = folders st"
proof (induction evs arbitrary: st out err)
  case Nil
  show ?case by simp
next
  case (Cons ev evs)
  show ?case by (cases ev) (simp_all add: Cons.IH)
qed

lemma foldl_on_event_output:
  "snd (foldl (on_event this n) (st, out, err) evs)
     = (out @ captured_stdout evs, err @ captured_stderr evs)"
proof (induction evs arbitrary: st out err)
  case Nil
  show ?case by simp
next
  case (Cons ev evs)
  show ?case by (cases ev) (simp_all add: Cons.IH)
qed

lemma runPythonScript_result:
  "snd (runPythonScript e this st n args) = script_result e n args"
  using foldl_on_event_output [of this n "spawn_python st n args" "[]" "[]" "io (world e n args)"]
  by (auto simp: runPythonScript_def spawn_python_def script_result_def Let_def
        split: prod.splits exit.splits)

lemma runPythonScript_frame:
  "spawned (fst (runPythonScript e this st n args)) = spawned st @ [(n, args)]"
  "folders (fst (runPythonScript e this st n args)) = folders st"
  using foldl_on_event_frame [of this n "spawn_python st n args" "[]" "[]" "io (world e n args)"]
  by (auto simp: runPythonScript_def spawn_python_def Let_def split: prod.splits exit.splits)


subsection \<open>What the streams receive\<close>

lemma chunks_at_sendProgressUpdate:
  "chunks_at (sendProgressUpdate st sid u) a
     = chunks_at st a @ (if subscribed st sid a then [u] else [])"
  by (auto simp: sendProgressUpdate_def controller_enqueue_def chunks_at_def subscribed_def Let_def
        nth_list_update split: option.splits)

lemma subscribed_sendProgressUpdate:
  "subscribed (sendProgressUpdate st sid u) sid a = subscribed st sid a"
  by (auto simp: sendProgressUpdate_def controller_enqueue_def subscribed_def Let_def
        nth_list_update delete_conv' split: option.splits)

lemma chunks_at_updateProgress:
  "chunks_at (updateProgress this st m s d) a
     = chunks_at st a @ (if subscribed st (sessionId this) a
          then [\<lparr>step = currentStep this, total' = totalSteps this, message = m, status = s,
                 details = d\<rparr>] else [])"
  by (simp add: updateProgress_def chunks_at_sendProgressUpdate)

lemma subscribed_updateProgress:
  "subscribed (updateProgress this st m s d) (sessionId this) a = subscribed st (sessionId this) a"
  by (simp add: updateProgress_def subscribed_sendProgressUpdate)

lemma handle_streams:
  "length (streams st) \<le> length (streams (handle st h))"
  by (cases h) (auto simp: GET_def cancel_def timeout_def controller_enqueue_def controller_close_def
        Let_def split: option.splits list.splits)

lemma chunks_at_handle:
  "chunks_at (handle st h) a = chunks_at st a
   \<or> (a = length (streams st) \<and> chunks_at (handle st h) a = chunks_at st a @ [connected])"
  by (cases h) (auto simp: GET_def cancel_def timeout_def controller_enqueue_def controller_close_def
        chunks_at_def Let_def nth_list_update nth_append split: option.splits list.splits)

lemma received_eq: "chunks_at st' a = chunks_at st a @ evs \<Longrightarrow> received st st' a = evs"
  by (simp add: received_def)

lemma run_relI:
  assumes "length (streams st) \<le> length (streams st')"
    and "\<And>a. \<exists>evs. chunks_at st' a = chunks_at st a @ evs \<and> sorted (map step evs) \<and>
           (\<forall>u\<in>set evs. status u = Running \<and> total' u = 6 \<and> step u \<le> hi \<and>
              (lo \<le> step u \<or> \<not> a < length (streams st) \<and> step u = 0))"
  shows "run_rel lo hi st st'"
  unfolding run_rel_def
proof (intro conjI allI)
  show "length (streams st) \<le> length (streams st')" by fact
next
  fix a
  from assms(2) [of a] obtain evs where evs: "chunks_at st' a = chunks_at st a @ evs"
    "sorted (map step evs)"
    "\<forall>u\<in>set evs. status u = Running \<and> total' u = 6 \<and> step u \<le> hi \<and>
              (lo \<le> step u \<or> \<not> a < length (streams st) \<and> step u = 0)" by blast
  have r: "received st st' a = evs" using evs(1) by (rule received_eq)
  show "chunks_at st' a = chunks_at st a @ received st st' a" using evs(1) r by simp
  show "sorted (map step (received st st' a))" using evs(2) r by simp
  show "\<forall>u\<in>set (received st st' a). status u = Running \<and> total' u = 6 \<and> step u \<le> hi \<and>
              (lo \<le> step u \<or> \<not> a < length (streams st) \<and> step u = 0)" using evs(3) r by simp
qed

lemma run_rel_refl: "run_rel lo hi st st"
  by (rule run_relI) auto

lemma run_rel_trans:
  assumes 1: "run_rel lo hi st st'" and 2: "run_rel lo' hi' st' st''"
    and le: "hi \<le> lo'" "lo \<le> lo'" "hi \<le> hi'"
  shows "run_rel lo hi' st st''"
proof (rule run_relI)
  show "length (streams st) \<le> length (streams st'')"
    using 1 2 by (simp add: run_rel_def)
next
  fix a
  let ?e1 = "received st st' a" and ?e2 = "received st' st'' a"
  have c: "chunks_at st'' a = chunks_at st a @ (?e1 @ ?e2)"
    using 1 2 by (simp add: run_rel_def)
  have p1: "\<forall>u\<in>set ?e1. status u = Running \<and> total' u = 6 \<and> step u \<le> hi \<and>
              (lo \<le> step u \<or> \<not> a < length (streams st) \<and> step u = 0)"
    using 1 by (simp add: run_rel_def)
  have p2: "\<forall>u\<in>set ?e2. status u = Running \<and> total' u = 6 \<and> step u \<le> hi' \<and>
              (lo' \<le> step u \<or> \<not> a < length (streams st') \<and> step u = 0)"
    using 2 by (simp add: run_rel_def)
  have len: "length (streams st) \<le> length (streams st')" using 1 by (simp add: run_rel_def)
  have new: "\<not> a < length (streams st') \<Longrightarrow> ?e1 = []"
    using 1 by (simp add: run_rel_def chunks_at_def received_def)
  have s: "sorted (map step (?e1 @ ?e2))"
  proof (cases "a < length (streams st')")
    case True
    have "\<forall>x\<in>set ?e1. \<forall>y\<in>set ?e2. step x \<le> step y"
    proof (intro ballI)
      fix x y assume "x \<in> set ?e1" "y \<in> set ?e2"
      then have "step x \<le> hi" "lo' \<le> step y" using p1 p2 True by auto
      then show "step x \<le> step y" using le by linarith
    qed
    moreover have "sorted (map step ?e1)" "sorted (map step ?e2)"
      using 1 2 by (simp_all add: run_rel_def)
    ultimately show ?thesis by (auto simp: sorted_append)
  next
    case False
    then show ?thesis using new 2 by (simp add: run_rel_def)
  qed
  have p: "\<forall>u\<in>set (?e1 @ ?e2). status u = Running \<and> total' u = 6 \<and> step u \<le> hi' \<and>
              (lo \<le> step u \<or> \<not> a < length (streams st) \<and> step u = 0)"
  proof
    fix u assume "u \<in> set (?e1 @ ?e2)"
    then consider "u \<in> set ?e1" | "u \<in> set ?e2" by auto
    then show "status u = Running \<and> total' u = 6 \<and> step u \<le> hi' \<and>
              (lo \<le> step u \<or> \<not> a < length (streams st) \<and> step u = 0)"
    proof cases
      case 1
      then show ?thesis using p1 le by fastforce
    next
      case 2
      then show ?thesis using p2 le len by fastforce
    qed
  qed
  show "\<exists>evs. chunks_at st'' a = chunks_at st a @ evs \<and> sorted (map step evs) \<and>
           (\<forall>u\<in>set evs. status u = Running \<and> total' u = 6 \<and> step u \<le> hi' \<and>
              (lo \<le> step u \<or> \<not> a < length (streams st) \<and> step u = 0))"
    using c s p by blast
qed

lemma run_rel_mono:
  "run_rel lo hi st st' \<Longrightarrow> lo' \<le> lo \<Longrightarrow> hi \<le> hi' \<Longrightarrow> run_rel lo' hi' st st'"
  unfolding run_rel_def by (fastforce intro: order_trans)

lemma run_rel_send:
  assumes "status u = Running" "total' u = 6" "lo \<le> step u" "step u \<le> hi"
  shows "run_rel lo hi st (sendProgressUpdate st sid u)"
  by (rule run_relI) (use assms in \<open>auto simp: chunks_at_sendProgressUpdate\<close>)

lemma run_rel_handle: "run_rel lo hi st (handle st h)"
proof (rule run_relI)
  show "length (streams st) \<le> length (streams (handle st h))" by (rule handle_streams)
next
  fix a
  from chunks_at_handle [of st h a]
  show "\<exists>evs. chunks_at (handle st h) a = chunks_at st a @ evs \<and> sorted (map step evs) \<and>
           (\<forall>u\<in>set evs. status u = Running \<and> total' u = 6 \<and> step u \<le> hi \<and>
              (lo \<le> step u \<or> \<not> a < length (streams st) \<and> step u = 0))"
  proof
    assume "chunks_at (handle st h) a = chunks_at st a"
    then show ?thesis by (intro exI [of _ "[]"]) simp
  next
    assume "a = length (streams st) \<and> chunks_at (handle st h) a = chunks_at st a @ [connected]"
    then have "chunks_at (handle st h) a = chunks_at st a @ [connected]"
      and "\<not> a < length (streams st)" by auto
    moreover have "status connected = Running" "total' connected = 6" "step connected = 0"
      by (simp_all add: connected_def)
    ultimately show ?thesis by (intro exI [of _ "[connected]"]) simp
  qed
qed


lemma run_rel_spawned [simp]:
  "run_rel lo hi (st\<lparr>spawned := x\<rparr>) st' = run_rel lo hi st st'"
  by (simp add: run_rel_def chunks_at_def received_def)

lemma run_rel_spawned_after [simp]:
  "run_rel lo hi st (st'\<lparr>spawned := x\<rparr>) = run_rel lo hi st st'"
  by (simp add: run_rel_def chunks_at_def received_def)

lemma run_rel_updateProgress:
  assumes "totalSteps this = 6"
  shows "run_rel (currentStep this) (currentStep this) st (updateProgress this st m Running d)"
  unfolding updateProgress_def Let_def by (rule run_rel_send) (use assms in simp_all)

lemma run_rel_foldl:
  assumes "totalSteps this = 6"
  shows "run_rel (currentStep this) (currentStep this) st
           (fst (foldl (on_event this n) (st, out, err) evs))"
proof (induction evs arbitrary: st out err)
  case Nil
  show ?case by (simp add: run_rel_refl)
next
  case (Cons ev evs)
  obtain st1 out1 err1 where 1: "on_event this n (st, out, err) ev = (st1, out1, err1)"
    by (cases "on_event this n (st, out, err) ev")
  have "run_rel (currentStep this) (currentStep this) st st1"
    using 1 by (cases ev) (auto simp: run_rel_refl run_rel_handle run_rel_updateProgress [OF assms])
  moreover have "run_rel (currentStep this) (currentStep this) st1
      (fst (foldl (on_event this n) (st1, out1, err1) evs))" by (rule Cons.IH)
  ultimately show ?case using 1 by (auto intro: run_rel_trans)
qed

lemma run_rel_runPythonScript:
  assumes "totalSteps this = 6"
  shows "run_rel (currentStep this) (currentStep this) st (fst (runPythonScript e this st n args))"
  using run_rel_foldl [OF assms, of "spawn_python st n args" n "[]" "[]"
      "io (world e n args)"]
    run_rel_refl [where st = st and lo = "currentStep this" and hi = "currentStep this"]
  by (auto simp: runPythonScript_def spawn_python_def Let_def split: prod.splits exit.splits)

lemma run_stage_facts:
  assumes "run_stage e s this st = (this', st', r)"
  shows "this' = this\<lparr>currentStep := stage_step s\<rparr>"
    and "r = stage_result e s"
    and "spawned st' = spawned st @ stage_tasks s"
    and "folders st' = folders st"
    and "totalSteps this = 6 \<Longrightarrow> run_rel (stage_step s) (stage_step s) st st'"
proof -
  show "this' = this\<lparr>currentStep := stage_step s\<rparr>"
    using assms by (cases s) (auto simp: Let_def)
  show "r = stage_result e s"
    using assms runPythonScript_result by (cases s) (auto simp: Let_def prod_eq_iff)
  show "spawned st' = spawned st @ stage_tasks s"
    using assms runPythonScript_frame by (cases s) (auto simp: Let_def prod_eq_iff)
  show "folders st' = folders st"
    using assms runPythonScript_frame by (cases s) (auto simp: Let_def prod_eq_iff)
  assume t: "totalSteps this = 6"
  show "run_rel (stage_step s) (stage_step s) st st'"
  proof (cases s)
    case (Task n msg script args)
    let ?o1 = "this\<lparr>currentStep := n\<rparr>"
    let ?st1 = "updateProgress ?o1 st msg Running None"
    have "run_rel n n st ?st1" using run_rel_updateProgress [of ?o1 st msg None] t by simp
    moreover have "run_rel n n ?st1 (fst (runPythonScript e ?o1 ?st1 script args))"
      using run_rel_runPythonScript [of ?o1 ?st1 e script args] t by simp
    moreover have "st' = fst (runPythonScript e ?o1 ?st1 script args)"
      using assms Task by (auto simp: Let_def)
    ultimately show ?thesis using Task by (auto intro: run_rel_trans)
  next
    case (Note n msg)
    then show ?thesis
      using assms t run_rel_updateProgress [of "this\<lparr>currentStep := n\<rparr>" st msg None]
      by (auto simp: Let_def)
  qed
qed

subsection \<open>Walking a stage list\<close>

lemma run_stages_result:
  "snd (snd (run_stages e ss this st)) = stages_result e ss"
proof (induction ss arbitrary: this st)
  case Nil
  show ?case by simp
next
  case (Cons s ss)
  obtain this1 st1 r1 where 1: "run_stage e s this st = (this1, st1, r1)"
    by (cases "run_stage e s this st")
  have r1: "r1 = stage_result e s" using 1 by (rule run_stage_facts)
  show ?case using 1 Cons.IH [of this1 st1] unfolding r1
    by (cases "stage_result e s") simp_all
qed

lemma run_stages_spawned:
  "spawned (fst (snd (run_stages e ss this st)))
     = spawned st @ concat (map stage_tasks (attempted e ss))
   \<and> folders (fst (snd (run_stages e ss this st))) = folders st"
proof (induction ss arbitrary: this st)
  case Nil
  show ?case by simp
next
  case (Cons s ss)
  obtain this1 st1 r1 where 1: "run_stage e s this st = (this1, st1, r1)"
    by (cases "run_stage e s this st")
  note f = run_stage_facts [OF 1]
  show ?case using 1 f(3,4) Cons.IH [of this1 st1] unfolding f(2)
    by (cases "stage_result e s") simp_all
qed

lemma run_stages_this:
  "fst (run_stages e ss this st)
     = (if ss = [] then this else this\<lparr>currentStep := stage_step (last (attempted e ss))\<rparr>)"
proof (induction ss arbitrary: this st)
  case Nil
  show ?case by simp
next
  case (Cons s ss)
  obtain this1 st1 r1 where 1: "run_stage e s this st = (this1, st1, r1)"
    by (cases "run_stage e s this st")
  note f = run_stage_facts [OF 1]
  show ?case using 1 f(1) Cons.IH [of this1 st1] unfolding f(2)
    by (cases "stage_result e s"; cases ss) simp_all
qed

lemma run_stages_rel:
  assumes "run_stages e ss this st = (this', st', r)"
    and "totalSteps this = 6" "sorted (map stage_step ss)" "ss \<noteq> []"
    and "\<forall>s\<in>set ss. lo \<le> stage_step s"
  shows "lo \<le> currentStep this' \<and> run_rel lo (currentStep this') st st'"
  using assms
proof (induction ss arbitrary: this st lo)
  case Nil
  then show ?case by simp
next
  case (Cons s ss)
  obtain this1 st1 r1 where 1: "run_stage e s this st = (this1, st1, r1)"
    by (cases "run_stage e s this st")
  note f = run_stage_facts [OF 1]
  let ?n = "stage_step s"
  have le: "lo \<le> ?n" using Cons.prems by simp
  have rel1: "run_rel lo ?n st st1"
    using f(5) [OF Cons.prems(2)] le by (rule run_rel_mono) simp
  have this1: "totalSteps this1 = 6" "currentStep this1 = ?n" using f(1) Cons.prems(2) by simp_all
  show ?case
  proof (cases "ss = [] \<or> (\<exists>err. r1 = Inl err)")
    case True
    then have "this' = this1 \<and> st' = st1"
      using 1 Cons.prems(1) by (cases r1) auto
    then show ?thesis using this1 rel1 le by simp
  next
    case False
    then obtain v where v: "r1 = Inr v" and ne: "ss \<noteq> []" by (cases r1) auto
    then have 2: "run_stages e ss this1 st1 = (this', st', r)" using 1 Cons.prems(1) by simp
    have "sorted (map stage_step ss)" "\<forall>s'\<in>set ss. ?n \<le> stage_step s'"
      using Cons.prems(3) by simp_all
    then have ih: "?n \<le> currentStep this'" "run_rel ?n (currentStep this') st1 st'"
      using Cons.IH [OF 2 this1(1) _ ne, of ?n] by simp_all
    have "run_rel lo (currentStep this') st st'"
      using rel1 ih(2) by (rule run_rel_trans) (use le ih(1) in simp_all)
    then show ?thesis using le ih(1) by simp
  qed
qed

lemma pipeline_sorted: "sorted (map stage_step (pipeline params))"
  by (simp add: pipeline_def)

lemma pipeline_steps: "s \<in> set (pipeline params) \<Longrightarrow> 1 \<le> stage_step s \<and> stage_step s \<le> 6"
  by (auto simp: pipeline_def split: if_splits)

subsection \<open>The whole workflow\<close>

lemma pipeline_not_Nil: "pipeline params \<noteq> []"
  by (simp add: pipeline_def)

lemma runWorkflow_facts:
  "fst (runWorkflow e this st params)
     = this\<lparr>currentStep := stage_step (last (attempted e (pipeline params)))\<rparr>"
  "snd (snd (runWorkflow e this st params)) = stages_result e (pipeline params)"
  "spawned (fst (snd (runWorkflow e this st params)))
     = spawned st @ concat (map stage_tasks (attempted e (pipeline params)))"
  "folders (fst (snd (runWorkflow e this st params))) = folders st"
proof -
  obtain this1 st1 r1 where 1: "run_stages e (pipeline params) this st = (this1, st1, r1)"
    by (cases "run_stages e (pipeline params) this st")
  have t: "this1 = this\<lparr>currentStep := stage_step (last (attempted e (pipeline params)))\<rparr>"
    using run_stages_this [of e "pipeline params" this st] 1 pipeline_not_Nil by simp
  have r: "stages_result e (pipeline params) = r1"
    using run_stages_result [of e "pipeline params" this st] 1 by simp
  have s: "spawned st1 = spawned st @ concat (map stage_tasks (attempted e (pipeline params)))"
    "folders st1 = folders st"
    using run_stages_spawned [of e "pipeline params" this st] 1 by simp_all
  have w: "runWorkflow e this st params =
      (case r1 of Inl err \<Rightarrow> (this1, updateProgress this1 st1 (''Error: '' @ err) Error None, Inl err)
       | Inr v \<Rightarrow> (this1, updateProgress this1 st1 ''All tasks completed successfully!'' Completed None, Inr ()))"
    by (cases r1) (simp_all add: runWorkflow_def runWorkflow_try_eq 1)
  show "fst (runWorkflow e this st params)
     = this\<lparr>currentStep := stage_step (last (attempted e (pipeline params)))\<rparr>"
    using w t by (cases r1) simp_all
  show "snd (snd (runWorkflow e this st params)) = stages_result e (pipeline params)"
    using w r by (cases r1) simp_all
  show "spawned (fst (snd (runWorkflow e this st params)))
     = spawned st @ concat (map stage_tasks (attempted e (pipeline params)))"
    using w s by (cases r1) simp_all
  show "folders (fst (snd (runWorkflow e this st params))) = folders st"
    using w s by (cases r1) simp_all
qed

subsection \<open>Lower case\<close>

lemma lowerChar_idem: "lowerChar (lowerChar c) = lowerChar c"
proof (cases "isUpper c")
  case True
  then have "\<not> isUpper (char_of ((of_char c :: nat) + 32))"
    by (auto simp: isUpper_def Let_def of_char_of)
  then show ?thesis using True by (simp add: lowerChar_def)
next
  case False
  then show ?thesis by (simp add: lowerChar_def)
qed

lemma toLowerCase_idem: "toLowerCase (toLowerCase s) = toLowerCase s"
  by (simp add: toLowerCase_def lowerChar_idem)

subsection \<open>The background run and the examples\<close>

lemma run_in_background_facts:
  "spawned (run_in_background e sid st params)
     = spawned st @ concat (map stage_tasks (attempted e (pipeline params)))"
  "folders (run_in_background e sid st params) = folders st"
proof -
  obtain this1 st1 r1 where 1: "runWorkflow e (new_ScrapingOrchestrator sid) st params = (this1, st1, r1)"
    by (cases "runWorkflow e (new_ScrapingOrchestrator sid) st params")
  have s: "spawned st1 = spawned st @ concat (map stage_tasks (attempted e (pipeline params)))"
    "folders st1 = folders st"
    using runWorkflow_facts(3,4) [of e "new_ScrapingOrchestrator sid" st params] 1 by simp_all
  show "spawned (run_in_background e sid st params)
     = spawned st @ concat (map stage_tasks (attempted e (pipeline params)))"
    using 1 s by (cases r1) (simp_all add: run_in_background_def)
  show "folders (run_in_background e sid st params) = folders st"
    using 1 s by (cases r1) (simp_all add: run_in_background_def)
qed

lemma js_or_Nil: "js_or s [] = s"
  by (simp add: js_or_def)

lemma toLowerCase_Nil: "toLowerCase s = [] \<longleftrightarrow> s = []"
  by (simp add: toLowerCase_def)

lemma email_ok: "emailRegex_test ''a@b.c''"
  by (simp add: emailRegex_test_def emailRegex_def notSpaceAt_def isSpace_def)

lemma lower_amazon: "toLowerCase ''Amazon'' = ''amazon''"
  by (simp add: toLowerCase_def lowerChar_def isUpper_def char_of_def bit_Suc_0_iff)

lemma lower_blinkit: "toLowerCase ''BLINKIT'' = ''blinkit''"
  by (simp add: toLowerCase_def lowerChar_def isUpper_def char_of_def bit_Suc_0_iff)

lemma POST_invalid:
  "\<not> valid_body b \<Longrightarrow> \<exists>m. POST e st (Some b) = (ErrorResponse 400 m, st)"
  unfolding valid_body_def POST_def by (auto simp: Let_def js_or_Nil)

lemma POST_valid:
  "valid_body b \<Longrightarrow>
   POST e st (Some b) =
     (case create_output_folder e st (resolve e (the (body_outputFolder b))) of
        Inl msg \<Rightarrow>
          (ErrorResponse 400
             (''Failed to create output folder at '' @ [CHR 0x22]
              @ resolve e (the (body_outputFolder b)) @ [CHR 0x22] @ '': '' @ msg), st)
      | Inr st' \<Rightarrow>
          (Success (make_sessionId e)
             (''Scraping workflow started successfully. ''
              @ ''You will receive an email when complete.''),
           run_in_background e (make_sessionId e) st'
             \<lparr>scrapeSite = the (body_scrapeSite b), productName = the (body_productName b),
              outputFolder = resolve e (the (body_outputFolder b)),
              recipientEmail = the (body_recipientEmail b)\<rparr>))"
  unfolding valid_body_def POST_def
  by (cases "create_output_folder e st (resolve e (the (body_outputFolder b)))")
     (simp_all add: Let_def js_or_Nil)

lemma create_output_folder_cases:
  "create_output_folder e st r =
     (if r \<in> set (folders st) then Inr st
      else case mkdir_error e r of None \<Rightarrow> Inr (st\<lparr>folders := r # folders st\<rparr>) | Some msg \<Rightarrow> Inl msg)"
  by (simp add: create_output_folder_def)

lemma create_output_folder_world [simp]:
  "create_output_folder (e\<lparr>world := w\<rparr>) st r = create_output_folder e st r"
  by (simp add: create_output_folder_def)

lemma valid_body_lower:
  "valid_body (b\<lparr>body_scrapeSite := map_option toLowerCase (body_scrapeSite b)\<rparr>) = valid_body b"
  by (cases "body_scrapeSite b") (simp_all add: valid_body_def falsy_def toLowerCase_idem toLowerCase_Nil)

lemma pipeline_lower:
  "map (\<lambda>s. (stage_step s, stage_scripts s)) (pipeline (p\<lparr>scrapeSite := toLowerCase (scrapeSite p)\<rparr>))
     = map (\<lambda>s. (stage_step s, stage_scripts s)) (pipeline p)"
  by (simp add: pipeline_def js_or_Nil toLowerCase_idem)

lemma pipeline_lower_blinkit:
  "toLowerCase (scrapeSite p) = ''blinkit'' \<Longrightarrow>
   pipeline (p\<lparr>scrapeSite := toLowerCase (scrapeSite p)\<rparr>) = pipeline p"
  using toLowerCase_idem [of "scrapeSite p"] by (simp add: pipeline_def js_or_Nil)

lemma runWorkflow_pipeline:
  "pipeline p' = pipeline p \<Longrightarrow> runWorkflow e this st p' = runWorkflow e this st p"
  by (simp add: runWorkflow_def runWorkflow_try_eq)

lemma POST_invalid_response:
  "\<not> valid_body b \<Longrightarrow>
   fst (POST e st (Some b)) =
     ErrorResponse 400
       (if falsy (body_scrapeSite b) \<or> falsy (body_productName b) \<or> falsy (body_outputFolder b)
           \<or> falsy (body_recipientEmail b)
        then ''Missing required fields''
        else if \<not> emailRegex_test (the (body_recipientEmail b)) then ''Invalid email format''
        else ''Supported sites are: Amazon, Blinkit'')"
  unfolding valid_body_def POST_def by (auto simp: Let_def js_or_Nil)

lemma falsy_lower:
  "falsy (map_option toLowerCase f) = falsy f"
  by (cases f) (simp_all add: falsy_def toLowerCase_Nil)

lemma attempted_last_step:
  "ss \<noteq> [] \<Longrightarrow> stage_step (last (attempted e ss)) \<in> stage_step ` set ss"
proof (induction ss)
  case Nil
  then show ?case by simp
next
  case (Cons s ss)
  then show ?case by (cases "stage_result e s"; cases ss) auto
qed

lemma attempted_all:
  "stages_result e ss = Inr v \<Longrightarrow> attempted e ss = ss"
  by (induction ss) (auto split: sum.splits)

lemma runWorkflow_decomp:
  assumes "runWorkflow e (new_ScrapingOrchestrator sid) st params = (this', st', r)"
  shows "\<exists>st1. run_rel 1 (currentStep this') st st1 \<and>
           st' = sendProgressUpdate st1 sid (terminal_event (currentStep this') r)"
    and "1 \<le> currentStep this'" and "currentStep this' \<le> 6"
    and "r = stages_result e (pipeline params)"
    and "(\<exists>v. r = Inr v) \<longrightarrow> currentStep this' = 6"
proof -
  let ?o0 = "new_ScrapingOrchestrator sid"
  obtain this1 st1 r1 where 1: "run_stages e (pipeline params) ?o0 st = (this1, st1, r1)"
    by (cases "run_stages e (pipeline params) ?o0 st")
  have t: "this1 = ?o0\<lparr>currentStep := stage_step (last (attempted e (pipeline params)))\<rparr>"
    using run_stages_this [of e "pipeline params" ?o0 st] 1 pipeline_not_Nil by simp
  have r1: "stages_result e (pipeline params) = r1"
    using run_stages_result [of e "pipeline params" ?o0 st] 1 by simp
  have rel: "1 \<le> currentStep this1 \<and> run_rel 1 (currentStep this1) st st1"
    using 1 by (rule run_stages_rel)
      (use pipeline_sorted pipeline_steps pipeline_not_Nil in \<open>auto simp: new_ScrapingOrchestrator_def\<close>)
  have w: "runWorkflow e ?o0 st params =
      (this1, sendProgressUpdate st1 sid (terminal_event (currentStep this1) r1),
       case r1 of Inl err \<Rightarrow> Inl err | Inr v \<Rightarrow> Inr ())"
  proof -
    have f: "sessionId this1 = sid" "totalSteps this1 = 6"
      using t by (simp_all add: new_ScrapingOrchestrator_def)
    show ?thesis
      by (cases r1)
         (simp_all add: runWorkflow_def runWorkflow_try_eq 1 updateProgress_def terminal_event_def f)
  qed
  have eq: "this' = this1" "st' = sendProgressUpdate st1 sid (terminal_event (currentStep this1) r1)"
    "r = (case r1 of Inl err \<Rightarrow> Inl err | Inr v \<Rightarrow> Inr ())"
    using w assms by simp_all
  have rr: "r = r1" using eq(3) by (cases r1) simp_all
  show "\<exists>st1. run_rel 1 (currentStep this') st st1 \<and>
           st' = sendProgressUpdate st1 sid (terminal_event (currentStep this') r)"
    using rel eq(1,2) rr by (intro exI [of _ st1]) simp
  show "1 \<le> currentStep this'" using rel eq by simp
  have "stage_step (last (attempted e (pipeline params))) \<in> stage_step ` set (pipeline params)"
    using pipeline_not_Nil by (rule attempted_last_step)
  then show "currentStep this' \<le> 6" using pipeline_steps [of _ params] eq(1) t by auto
  show "r = stages_result e (pipeline params)" using rr r1 by simp
  show "(\<exists>v. r = Inr v) \<longrightarrow> currentStep this' = 6"
  proof
    assume "\<exists>v. r = Inr v"
    then obtain v where "stages_result e (pipeline params) = Inr v" using rr r1 by auto
    then have "attempted e (pipeline params) = pipeline params" by (rule attempted_all)
    then show "currentStep this' = 6" using eq(1) t by (simp add: pipeline_def)
  qed
qed

lemma step1_failing:
  "step1_product_analysis env_fail params_amazon (new_ScrapingOrchestrator ''scrape_5_abc'') state_out
     = (\<lparr>sessionId = ''scrape_5_abc'', currentStep = 1, totalSteps = 6\<rparr>, state_failed1,
        Inl failure_message)"
proof -
  have t: "trim ''hi '' = ''hi''" by (simp add: trim_def isSpace_def)
  have c: "string_of_code (Some 1) = ''1''"
    by (simp add: string_of_code_def decimal_int_def digit_def)
  show ?thesis
    by (simp add: step1_product_analysis_def params_amazon_def new_ScrapingOrchestrator_def
          lower_amazon js_or_def updateProgress_def sendProgressUpdate_def state_out_def
          initial_state_def env_fail_def env_ok_def runPythonScript_def spawn_python_def GET_def
          controller_enqueue_def t c state_failed1_def failure_message_def)
qed

lemma runWorkflow_failing:
  "runWorkflow env_fail (new_ScrapingOrchestrator ''scrape_5_abc'') state_out params_amazon
     = (\<lparr>sessionId = ''scrape_5_abc'', currentStep = 1, totalSteps = 6\<rparr>,
        sendProgressUpdate state_failed1 ''scrape_5_abc'' (terminal_event 1 (Inl failure_message)),
        Inl failure_message)"
proof -
  have "runWorkflow_try env_fail params_amazon (new_ScrapingOrchestrator ''scrape_5_abc'') state_out
     = (\<lparr>sessionId = ''scrape_5_abc'', currentStep = 1, totalSteps = 6\<rparr>, state_failed1,
        Inl failure_message)"
    unfolding runWorkflow_try_def step1_failing by (rule await_Inl)
  then show ?thesis
    by (simp add: runWorkflow_def updateProgress_def terminal_event_def)
qed

lemma run_in_background_failing:
  "run_in_background env_fail ''scrape_5_abc'' state_out params_amazon = state_failed"
  unfolding run_in_background_def runWorkflow_failing
  by (simp add: sendProgressUpdate_def controller_enqueue_def state_failed1_def state_failed_def
        terminal_event_def fallback_event_def)

lemma valid_body_amazon: "valid_body body_amazon"
  by (simp add: valid_body_def body_amazon_def falsy_def email_ok lower_amazon supportedSites_def)

lemma POST_failing:
  "POST env_fail state_out (Some body_amazon)
     = (Success ''scrape_5_abc''
          ''Scraping workflow started successfully. You will receive an email when complete.'',
        state_failed)"
proof -
  have "create_output_folder env_fail state_out ''/out'' = Inr state_out"
    by (simp add: create_output_folder_def state_out_def initial_state_def)
  moreover have "make_sessionId env_fail = ''scrape_5_abc''"
    by (simp add: make_sessionId_def env_fail_def env_ok_def digit_def)
  moreover have "resolve env_fail (the (body_outputFolder body_amazon)) = ''/out''"
    by (simp add: env_fail_def env_ok_def body_amazon_def)
  moreover have "\<lparr>scrapeSite = the (body_scrapeSite body_amazon),
      productName = the (body_productName body_amazon), outputFolder = ''/out'',
      recipientEmail = the (body_recipientEmail body_amazon)\<rparr> = params_amazon"
    by (simp add: body_amazon_def params_amazon_def)
  ultimately show ?thesis
    unfolding POST_valid [OF valid_body_amazon] by (simp add: run_in_background_failing)
qed

lemma run_in_background_eq:
  assumes "runWorkflow e (new_ScrapingOrchestrator sid) st params = (this', st', r)"
  shows "run_in_background e sid st params =
    (case r of Inl err \<Rightarrow> sendProgressUpdate st' sid (fallback_event err) | Inr v \<Rightarrow> st')"
  by (cases r) (simp_all add: run_in_background_def assms fallback_event_def)

lemma run_rel_chunks:
  assumes "run_rel lo hi st st1"
  shows "chunks_at st1 a = chunks_at st a @ received st st1 a"
    and "sorted (map step (received st st1 a))"
    and "\<And>u. u \<in> set (received st st1 a) \<Longrightarrow>
           status u = Running \<and> total' u = 6 \<and> step u \<le> hi \<and>
           (lo \<le> step u \<or> \<not> a < length (streams st) \<and> step u = 0)"
  using assms unfolding run_rel_def by blast+

lemma pipeline_strict: "sorted_wrt (<) (map stage_step (pipeline params))"
  by (simp add: pipeline_def)

lemma subscribed_spawned [simp]:
  "subscribed (st\<lparr>spawned := x\<rparr>) sid a = subscribed st sid a"
  by (simp add: subscribed_def)

lemma subscribed_foldl:
  "\<forall>h. Meanwhile h \<notin> set evs \<Longrightarrow>
   subscribed (fst (foldl (on_event this n) (st, out, err) evs)) (sessionId this) a
     = subscribed st (sessionId this) a"
proof (induction evs arbitrary: st out err)
  case Nil
  show ?case by simp
next
  case (Cons ev evs)
  then have ih: "\<And>st out err.
      subscribed (fst (foldl (on_event this n) (st, out, err) evs)) (sessionId this) a
        = subscribed st (sessionId this) a" by simp
  from Cons.prems show ?case by (cases ev) (auto simp: ih subscribed_updateProgress)
qed

lemma subscribed_runPythonScript:
  "quiet e \<Longrightarrow>
   subscribed (fst (runPythonScript e this st n args)) (sessionId this) a
     = subscribed st (sessionId this) a"
  using subscribed_foldl [of "io (world e n args)" this n
      "spawn_python st n args" "[]" "[]" a]
  by (auto simp: runPythonScript_def spawn_python_def quiet_def Let_def
        split: prod.splits exit.splits)

lemma subscribed_run_stage:
  assumes "quiet e" "run_stage e s this st = (this', st', r)"
  shows "subscribed st' (sessionId this) a = subscribed st (sessionId this) a"
proof (cases s)
  case (Task n msg script args)
  let ?o1 = "this\<lparr>currentStep := n\<rparr>"
  have "st' = fst (runPythonScript e ?o1 (updateProgress ?o1 st msg Running None) script args)"
    using assms(2) Task by (auto simp: Let_def)
  then show ?thesis
    using subscribed_runPythonScript [OF assms(1), of ?o1 "updateProgress ?o1 st msg Running None"
        script args a]
      subscribed_updateProgress [of ?o1 st msg Running None a]
    by simp
next
  case (Note n msg)
  then show ?thesis
    using assms(2) subscribed_updateProgress [of "this\<lparr>currentStep := n\<rparr>" st msg Running None a]
    by (auto simp: Let_def)
qed

lemma subscribed_run_stages:
  assumes "quiet e"
  shows "subscribed (fst (snd (run_stages e ss this st))) (sessionId this) a
           = subscribed st (sessionId this) a"
proof (induction ss arbitrary: this st)
  case Nil
  show ?case by simp
next
  case (Cons s ss)
  obtain this1 st1 r1 where 1: "run_stage e s this st = (this1, st1, r1)"
    by (cases "run_stage e s this st")
  have sid: "sessionId this1 = sessionId this" using run_stage_facts(1) [OF 1] by simp
  have "subscribed st1 (sessionId this) a = subscribed st (sessionId this) a"
    using assms 1 by (rule subscribed_run_stage)
  then show ?case using 1 Cons.IH [of this1 st1] sid by (cases r1) simp_all
qed

lemma subscribed_run_in_background:
  assumes "quiet e"
  shows "subscribed (run_in_background e sid st params) sid a = subscribed st sid a"
proof -
  let ?o0 = "new_ScrapingOrchestrator sid"
  obtain this1 st1 r1 where 1: "run_stages e (pipeline params) ?o0 st = (this1, st1, r1)"
    by (cases "run_stages e (pipeline params) ?o0 st")
  have sid: "sessionId this1 = sid"
    using run_stages_this [of e "pipeline params" ?o0 st] 1
    by (simp add: new_ScrapingOrchestrator_def split: if_splits)
  have s1: "subscribed st1 sid a = subscribed st sid a"
    using subscribed_run_stages [OF assms, of "pipeline params" ?o0 st a] 1
    by (simp add: new_ScrapingOrchestrator_def)
  show ?thesis
    by (cases r1)
       (simp_all add: run_in_background_def runWorkflow_def runWorkflow_try_eq 1 sid s1
          subscribed_updateProgress [of this1, unfolded sid] subscribed_sendProgressUpdate)
qed

lemma quiet_env_ok: "quiet env_ok"
  by (simp add: quiet_def env_ok_def)

lemma state_subscribed_facts:
  "subscribed state_subscribed ''scrape_5_abc'' 0"
  "chunks_at state_subscribed 0 = [connected]"
  by (simp_all add: state_subscribed_def state_out_def initial_state_def GET_def
        controller_enqueue_def subscribed_def chunks_at_def)

lemma state_failed_facts:
  "subscribed state_failed ''scrape_5_abc'' 0"
  "chunks_at state_out 0 = []"
  "spawned state_failed = [(''product_analyzer.py'', [''Amazon'', ''tea'', ''/out''])]"
  by (simp_all add: state_failed_def state_failed1_def state_out_def initial_state_def
        subscribed_def chunks_at_def)

lemma run_stages_grows:
  assumes "run_stages e ss this st = (this', st', r)" "totalSteps this = 6"
    "sorted (map stage_step ss)" "\<forall>s\<in>set ss. lo \<le> stage_step s"
  shows "chunks_at st' a = chunks_at st a @ received st st' a"
    and "\<forall>u\<in>set (received st st' a). total' u = 6 \<and> (lo \<le> step u \<or> step u = 0)"
proof -
  have "\<exists>hi. run_rel lo hi st st'"
  proof (cases "ss = []")
    case True
    then show ?thesis using assms(1) run_rel_refl by auto
  next
    case False
    then show ?thesis using run_stages_rel [OF assms(1,2,3) False assms(4)] by blast
  qed
  then obtain hi where rel: "run_rel lo hi st st'" by blast
  note c = run_rel_chunks [OF rel, where a = a]
  show "chunks_at st' a = chunks_at st a @ received st st' a" by (rule c(1))
  show "\<forall>u\<in>set (received st st' a). total' u = 6 \<and> (lo \<le> step u \<or> step u = 0)"
  proof
    fix u assume "u \<in> set (received st st' a)"
    from c(3) [OF this] show "total' u = 6 \<and> (lo \<le> step u \<or> step u = 0)" by auto
  qed
qed

lemma note_events:
  assumes "run_stages e ss this st = (this', st', r)" "totalSteps this = 6"
    "sorted_wrt (<) (map stage_step ss)" "Note n msg \<in> set ss" "0 < n"
  shows "filter (\<lambda>u. step u = n) (received st st' a) = [] \<or>
         filter (\<lambda>u. step u = n) (received st st' a)
           = [\<lparr>step = n, total' = 6, message = msg, status = Running, details = None\<rparr>]"
  using assms
proof (induction ss arbitrary: this st)
  case Nil
  then show ?case by simp
next
  case (Cons s ss)
  obtain this1 st1 r1 where 1: "run_stage e s this st = (this1, st1, r1)"
    by (cases "run_stage e s this st")
  note f = run_stage_facts [OF 1]
  have t1: "totalSteps this1 = 6" using f(1) Cons.prems(2) by simp
  have strict: "sorted_wrt (<) (map stage_step ss)" "\<forall>s'\<in>set ss. stage_step s < stage_step s'"
    using Cons.prems(3) by simp_all
  then have sorted: "sorted (map stage_step ss)"
    by (simp add: strict_sorted_imp_sorted)
  note c1 = run_rel_chunks [OF f(5) [OF Cons.prems(2)], where a = a]
  have before: "\<forall>u\<in>set (received st st1 a). step u \<noteq> n" if "stage_step s < n"
  proof
    fix u assume "u \<in> set (received st st1 a)"
    then have "step u \<le> stage_step s" using c1(3) [of u] by simp
    then show "step u \<noteq> n" using that by simp
  qed
  show ?case
  proof (cases "\<exists>err. r1 = Inl err")
    case True
    then have e: "st' = st1" using 1 Cons.prems(1) by auto
    have "s \<noteq> Note n msg"
    proof
      assume "s = Note n msg"
      then have "r1 = Inr []" using f(2) by simp
      then show False using True by simp
    qed
    then have "Note n msg \<in> set ss" using Cons.prems(4) by simp
    then have "stage_step s < stage_step (Note n msg)" using strict(2) by (rule bspec [rotated])
    then have "stage_step s < n" by simp
    then have "\<forall>u\<in>set (received st st1 a). step u \<noteq> n" by (rule before)
    then show ?thesis unfolding e by (simp add: filter_empty_conv)
  next
    case False
    then obtain v where v: "r1 = Inr v" by (cases r1) auto
    then have 2: "run_stages e ss this1 st1 = (this', st', r)" using 1 Cons.prems(1) by simp
    have lo: "\<forall>s'\<in>set ss. Suc (stage_step s) \<le> stage_step s'" using strict(2) by auto
    note g = run_stages_grows [OF 2 t1 sorted lo, where a = a]
    have "chunks_at st' a = chunks_at st a @ (received st st1 a @ received st1 st' a)"
      using c1(1) g(1) by simp
    then have r: "received st st' a = received st st1 a @ received st1 st' a"
      by (rule received_eq)
    show ?thesis
    proof (cases "s = Note n msg")
      case True
      let ?ev = "\<lparr>step = n, total' = 6, message = msg, status = Running, details = None\<rparr>"
      have "st1 = updateProgress (this\<lparr>currentStep := n\<rparr>) st msg Running None"
        using 1 True by (auto simp: Let_def)
      then have "chunks_at st1 a = chunks_at st a
          @ (if subscribed st (sessionId this) a then [?ev] else [])"
        using Cons.prems(2) by (simp add: chunks_at_updateProgress)
      then have r1: "received st st1 a = (if subscribed st (sessionId this) a then [?ev] else [])"
        by (rule received_eq)
      have "\<forall>u\<in>set (received st1 st' a). step u \<noteq> n"
      proof
        fix u assume "u \<in> set (received st1 st' a)"
        then have "Suc (stage_step s) \<le> step u \<or> step u = 0" using g(2) by simp
        then show "step u \<noteq> n" using True Cons.prems(5) by auto
      qed
      then have "filter (\<lambda>u. step u = n) (received st1 st' a) = []"
        by (simp add: filter_empty_conv)
      then show ?thesis unfolding r r1 by simp
    next
      case False
      then have n: "Note n msg \<in> set ss" using Cons.prems(4) by simp
      then have "stage_step s < stage_step (Note n msg)" using strict(2) by (rule bspec [rotated])
      then have "stage_step s < n" by simp
      then have "\<forall>u\<in>set (received st st1 a). step u \<noteq> n" by (rule before)
      then have "filter (\<lambda>u. step u = n) (received st st1 a) = []"
        by (simp add: filter_empty_conv)
      then show ?thesis
        unfolding r using Cons.IH [OF 2 t1 strict(1) n Cons.prems(5)] by simp
    qed
  qed
qed

lemma attempted_subset: "set (attempted e ss) \<subseteq> set ss"
  by (induction ss) (auto split: sum.splits)

lemma last_attempted:
  "ss \<noteq> [] \<Longrightarrow>
   last (attempted e ss) = last ss \<or> (\<exists>err. stage_result e (last (attempted e ss)) = Inl err)"
proof (induction ss)
  case Nil
  then show ?case by simp
next
  case (Cons s ss)
  then show ?case by (cases "stage_result e s"; cases ss) auto
qed

lemma run_in_background_chunks:
  fixes e sid st params
  defines "st1 \<equiv> fst (snd (run_stages e (pipeline params) (new_ScrapingOrchestrator sid) st))"
    and "k \<equiv> stage_step (last (attempted e (pipeline params)))"
    and "r \<equiv> stages_result e (pipeline params)"
  shows "chunks_at (run_in_background e sid st params) a =
           chunks_at st1 a @
           (if subscribed st1 sid a
            then terminal_event k r # (case r of Inl err \<Rightarrow> [fallback_event err] | Inr v \<Rightarrow> [])
            else [])"
proof -
  let ?o0 = "new_ScrapingOrchestrator sid"
  obtain this1 s1 r1 where 1: "run_stages e (pipeline params) ?o0 st = (this1, s1, r1)"
    by (cases "run_stages e (pipeline params) ?o0 st")
  have s1: "s1 = st1" using 1 by (simp add: st1_def)
  have t: "this1 = ?o0\<lparr>currentStep := k\<rparr>"
    using run_stages_this [of e "pipeline params" ?o0 st] 1 pipeline_not_Nil by (simp add: k_def)
  have f: "sessionId this1 = sid" "totalSteps this1 = 6" "currentStep this1 = k"
    using t by (simp_all add: new_ScrapingOrchestrator_def)
  have r1: "r1 = r"
    using run_stages_result [of e "pipeline params" ?o0 st] 1 by (simp add: r_def)
  have w: "runWorkflow e ?o0 st params =
      (this1, sendProgressUpdate st1 sid (terminal_event k r), r)"
  proof (cases r)
    case (Inl err)
    then show ?thesis using s1 r1
      by (simp add: runWorkflow_def runWorkflow_try_eq 1 await_Inl updateProgress_def
          terminal_event_def f)
  next
    case (Inr v)
    then show ?thesis using s1 r1
      by (simp add: runWorkflow_def runWorkflow_try_eq 1 await_Inr updateProgress_def
          terminal_event_def f)
  qed
  show ?thesis
    unfolding run_in_background_eq [OF w]
    by (cases r)
       (simp_all add: chunks_at_sendProgressUpdate subscribed_sendProgressUpdate)
qed

lemma note_delivered:
  assumes "toLowerCase (js_or (scrapeSite params) []) = ''blinkit''"
    and "quiet e" and "subscribed st sid a"
    and "script_result e ''blinkit.py''
           [''--brand'', productName params, ''--out-dir'', outputFolder params, ''--images'']
         = Inr out"
  shows "\<lparr>step = 2, total' = 6,
          message = ''Blinkit: Product analysis and image scraping completed (steps 1 & 2)'',
          status = Running, details = None\<rparr>
         \<in> set (received st (run_in_background e sid st params) a)"
proof -
  let ?msg = "''Blinkit: Product analysis and image scraping completed (steps 1 & 2)''"
  let ?ev = "\<lparr>step = 2, total' = 6, message = ?msg, status = Running, details = None\<rparr>"
  let ?T1 = "Task 1 ''Starting product analysis and scraping...'' ''blinkit.py''
      [''--brand'', productName params, ''--out-dir'', outputFolder params, ''--images'']"
  let ?rest = "[
      Task 3 ''Extracting text from images using AI...'' ''text_extractor.py'' [outputFolder params],
      Task 4 ''Detecting QR codes and barcodes...'' ''qr_orchestrator.py'' [outputFolder params],
      Task 5 ''Merging data and checking credentials...'' ''credential_check.py''
        [outputFolder params],
      Task 6 ''Sending email report...'' ''exception_reporter.py''
        [outputFolder params, recipientEmail params]]"
  let ?o0 = "new_ScrapingOrchestrator sid"
  have p: "pipeline params = ?T1 # Note 2 ?msg # ?rest" using assms(1) by (simp add: pipeline_def)
  obtain this1 st1 r1 where 1: "run_stage e ?T1 ?o0 st = (this1, st1, r1)"
    by (cases "run_stage e ?T1 ?o0 st")
  have t0: "totalSteps ?o0 = 6" "sessionId ?o0 = sid" by (simp_all add: new_ScrapingOrchestrator_def)
  have this1: "this1 = ?o0\<lparr>currentStep := 1\<rparr>" using run_stage_facts(1) [OF 1] by simp
  have f1: "totalSteps this1 = 6" "sessionId this1 = sid" using this1 t0 by simp_all
  have r1: "r1 = Inr out" using run_stage_facts(2) [OF 1] assms(4) by simp
  have s1: "subscribed st1 sid a"
    using subscribed_run_stage [OF assms(2) 1, of a] assms(3) t0 by simp
  have c1: "chunks_at st1 a = chunks_at st a @ received st st1 a"
    using run_rel_chunks(1) [OF run_stage_facts(5) [OF 1 t0(1)]] .
  let ?o2 = "this1\<lparr>currentStep := 2\<rparr>"
  let ?st2 = "updateProgress ?o2 st1 ?msg Running None"
  have c2: "chunks_at ?st2 a = chunks_at st1 a @ [?ev]"
    unfolding chunks_at_updateProgress using s1 f1 by simp
  obtain this3 st3 r3 where 3: "run_stages e ?rest ?o2 ?st2 = (this3, st3, r3)"
    by (cases "run_stages e ?rest ?o2 ?st2")
  have t2: "totalSteps ?o2 = 6" using f1 by simp
  have "sorted (map stage_step ?rest)" by simp
  moreover have "\<forall>s\<in>set ?rest. 0 \<le> stage_step s" by simp
  ultimately have c3: "chunks_at st3 a = chunks_at ?st2 a @ received ?st2 st3 a"
    using run_stages_grows(1) [OF 3 t2] by blast
  have n2: "run_stage e (Note 2 ?msg) this1 st1 = (?o2, ?st2, Inr [])" by (simp add: Let_def)
  have "run_stages e (?T1 # Note 2 ?msg # ?rest) ?o0 st
      = await (run_stage e ?T1 ?o0 st) (run_stages e (Note 2 ?msg # ?rest))"
    by (simp only: run_stages.simps)
  also have "\<dots> = run_stages e (Note 2 ?msg # ?rest) this1 st1"
    unfolding 1 r1 by (simp only: await_Inr)
  also have "\<dots> = await (run_stage e (Note 2 ?msg) this1 st1) (run_stages e ?rest)"
    by (simp only: run_stages.simps)
  also have "\<dots> = run_stages e ?rest ?o2 ?st2"
    unfolding n2 by (simp only: await_Inr)
  finally have "run_stages e (?T1 # Note 2 ?msg # ?rest) ?o0 st = (this3, st3, r3)"
    using 3 by simp
  then have all: "run_stages e (pipeline params) ?o0 st = (this3, st3, r3)" unfolding p .
  from run_in_background_chunks [of e sid st params a]
  obtain fin where "chunks_at (run_in_background e sid st params) a = chunks_at st3 a @ fin"
    unfolding all by auto
  then have "chunks_at (run_in_background e sid st params) a
      = chunks_at st a @ (received st st1 a @ [?ev] @ received ?st2 st3 a @ fin)"
    unfolding c3 c2 c1 by simp
  from received_eq [OF this] show ?thesis by simp
qed

lemma script_result_env_ok: "script_result env_ok script args = Inr ''ok ''"
  by (simp add: script_result_def env_ok_def)

subsection \<open>The first stage that fails\<close>

lemma stage_ok_iff: "stage_ok e s \<longleftrightarrow> (\<exists>v. stage_result e s = Inr v)"
  by (cases s) (auto simp: script_result_def split: exit.splits)

lemma stage_failed:
  "\<not> stage_ok e (Task n msg script args) \<Longrightarrow> \<exists>err. script_result e script args = Inl err"
  by (auto simp: script_result_def split: exit.splits)

lemma stages_all_ok:
  "\<forall>s\<in>set ss. stage_ok e s \<Longrightarrow> stages_result e ss = Inr () \<and> attempted e ss = ss"
  by (induction ss) (auto simp: stage_ok_iff)

lemma stages_first_failure:
  "\<forall>s'\<in>set pre. stage_ok e s' \<Longrightarrow> stage_result e s = Inl err \<Longrightarrow>
   stages_result e (pre @ s # rest) = Inl err \<and> attempted e (pre @ s # rest) = pre @ [s]"
  by (induction pre) (auto simp: stage_ok_iff)

lemma run_events:
  assumes "runWorkflow e (new_ScrapingOrchestrator sid) st params = (this', st', r)"
  shows "\<exists>runs. (\<forall>u\<in>set runs. status u = Running \<and> step u \<le> currentStep this') \<and>
           chunks_at st' a = chunks_at st a @ runs @
             (if subscribed st' sid a then [terminal_event (currentStep this') r] else []) \<and>
           subscribed (run_in_background e sid st params) sid a = subscribed st' sid a \<and>
           chunks_at (run_in_background e sid st params) a =
             chunks_at st a @ runs @
             (if subscribed st' sid a
              then terminal_event (currentStep this') r
                   # (case r of Inl err \<Rightarrow> [fallback_event err] | Inr v \<Rightarrow> [])
              else [])"
proof -
  let ?k = "currentStep this'"
  let ?T = "terminal_event ?k r"
  from runWorkflow_decomp(1) [OF assms] obtain st1
    where rel: "run_rel 1 ?k st st1" and st': "st' = sendProgressUpdate st1 sid ?T"
    by blast
  let ?runs = "received st st1 a"
  note c = run_rel_chunks [OF rel, where a = a]
  have run: "\<forall>u\<in>set ?runs. status u = Running \<and> step u \<le> ?k"
  proof
    fix u assume "u \<in> set ?runs"
    from c(3) [OF this] show "status u = Running \<and> step u \<le> ?k" by simp
  qed
  have c2: "chunks_at st' a = chunks_at st1 a @ (if subscribed st1 sid a then [?T] else [])"
    unfolding st' by (rule chunks_at_sendProgressUpdate)
  have s2: "subscribed st' sid a = subscribed st1 sid a"
    unfolding st' by (rule subscribed_sendProgressUpdate)
  have all: "chunks_at st' a = chunks_at st a @ ?runs @ (if subscribed st' sid a then [?T] else [])"
    unfolding c2 c(1) s2 by simp
  have bg: "subscribed (run_in_background e sid st params) sid a = subscribed st' sid a \<and>
      chunks_at (run_in_background e sid st params) a =
        chunks_at st a @ ?runs @
        (if subscribed st' sid a
         then ?T # (case r of Inl err \<Rightarrow> [fallback_event err] | Inr v \<Rightarrow> [])
         else [])"
    unfolding run_in_background_eq [OF assms]
    by (cases r) (simp_all add: chunks_at_sendProgressUpdate subscribed_sendProgressUpdate all)
  show ?thesis
    by (rule exI [of _ ?runs]) (use run all bg in blast)
qed

lemma quiet_env_failing: "quiet (env_failing script)"
  by (simp add: quiet_def env_failing_def env_ok_def)

lemma pipeline_amazon:
  "pipeline params_amazon =
     [Task 1 ''Starting product analysis and scraping...'' ''product_analyzer.py''
        [''Amazon'', ''tea'', ''/out''],
      Task 2 ''Scraping product images...'' ''image_scraper.py'' [''/out'']] @
     Task 3 ''Extracting text from images using AI...'' ''text_extractor.py'' [''/out''] #
     [Task 4 ''Detecting QR codes and barcodes...'' ''qr_orchestrator.py'' [''/out''],
      Task 5 ''Merging data and checking credentials...'' ''credential_check.py'' [''/out''],
      Task 6 ''Sending email report...'' ''exception_reporter.py'' [''/out'', ''a@b.c'']]"
  by (simp add: pipeline_def params_amazon_def lower_amazon js_or_def)


subsection \<open>Runs of stage lists that are alike\<close>

lemma sendProgressUpdate_spawned:
  "sendProgressUpdate (st\<lparr>spawned := x\<rparr>) sid u = (sendProgressUpdate st sid u)\<lparr>spawned := x\<rparr>"
  by (simp add: sendProgressUpdate_def Let_def split: option.splits)

lemma updateProgress_spawned:
  "updateProgress this (st\<lparr>spawned := x\<rparr>) m s d = (updateProgress this st m s d)\<lparr>spawned := x\<rparr>"
  by (simp add: updateProgress_def sendProgressUpdate_spawned)

lemma handle_spawned:
  "handle (st\<lparr>spawned := x\<rparr>) h = (handle st h)\<lparr>spawned := x\<rparr>"
  by (cases h)
     (simp_all add: GET_def cancel_def timeout_def Let_def split: option.splits list.splits)

lemma foldl_on_event_spawned:
  "foldl (on_event this n) (st\<lparr>spawned := x\<rparr>, out, err) evs =
     (case foldl (on_event this n) (st, out, err) evs of
        (st', oe) \<Rightarrow> (st'\<lparr>spawned := x\<rparr>, oe))"
proof (induction evs arbitrary: st out err)
  case Nil
  show ?case by simp
next
  case (Cons ev evs)
  show ?case
    by (cases ev) (simp_all add: Cons.IH updateProgress_spawned handle_spawned)
qed

lemma runPythonScript_spawned:
  assumes "world e n args' = world e n args"
  shows "runPythonScript e this (st\<lparr>spawned := x\<rparr>) n args' =
     (case runPythonScript e this st n args of
        (st', r) \<Rightarrow> (st'\<lparr>spawned := x @ [(n, args')]\<rparr>, r))"
proof -
  have a: "spawn_python (st\<lparr>spawned := x\<rparr>) n args'
      = (spawn_python st n args)\<lparr>spawned := x @ [(n, args')]\<rparr>"
    by (simp add: spawn_python_def)
  show ?thesis
    unfolding runPythonScript_def Let_def assms a foldl_on_event_spawned
    by (simp add: spawn_python_def split: exit.splits prod.splits)
qed

lemma run_stage_alike:
  assumes "alike e s s'"
  shows "\<exists>z. run_stage e s' this (st\<lparr>spawned := x\<rparr>) =
     (case run_stage e s this st of (this1, st1, r) \<Rightarrow> (this1, st1\<lparr>spawned := z\<rparr>, r))"
proof (cases s)
  case (Task n msg script args)
  with assms obtain args' where s': "s' = Task n msg script args'"
    and w: "world e script args' = world e script args"
    by (cases s') auto
  obtain st1 r where 1: "runPythonScript e (this\<lparr>currentStep := n\<rparr>)
      (updateProgress (this\<lparr>currentStep := n\<rparr>) st msg Running None) script args = (st1, r)"
    by (cases "runPythonScript e (this\<lparr>currentStep := n\<rparr>)
      (updateProgress (this\<lparr>currentStep := n\<rparr>) st msg Running None) script args")
  show ?thesis
    unfolding Task s'
    by (rule exI [of _ "x @ [(script, args')]"])
       (simp add: Let_def updateProgress_spawned runPythonScript_spawned [OF w] 1)
next
  case (Note n msg)
  with assms have s': "s' = Note n msg" by (cases s') auto
  show ?thesis
    unfolding Note s' by (rule exI [of _ x]) (simp add: Let_def updateProgress_spawned)
qed

lemma run_stages_alike:
  assumes "list_all2 (alike e) ss ss'"
  shows "\<exists>z. run_stages e ss' this (st\<lparr>spawned := x\<rparr>) =
     (case run_stages e ss this st of (this1, st1, r) \<Rightarrow> (this1, st1\<lparr>spawned := z\<rparr>, r))"
  using assms
proof (induction ss ss' arbitrary: this st x rule: list_all2_induct)
  case Nil
  show ?case by (rule exI [of _ x]) simp
next
  case (Cons s ss s' ss')
  obtain this1 st1 r1 where 1: "run_stage e s this st = (this1, st1, r1)"
    by (cases "run_stage e s this st")
  from run_stage_alike [OF Cons.hyps(1), where this = this and st = st and x = x] obtain z
    where 2: "run_stage e s' this (st\<lparr>spawned := x\<rparr>) = (this1, st1\<lparr>spawned := z\<rparr>, r1)"
    unfolding 1 by auto
  show ?case
  proof (cases r1)
    case (Inl err)
    show ?thesis by (rule exI [of _ z]) (simp add: 1 2 Inl)
  next
    case (Inr v)
    from Cons.IH [where this = this1 and st = st1 and x = z] show ?thesis
      by (simp add: 1 2 Inr)
  qed
qed

lemma runWorkflow_alike:
  assumes "list_all2 (alike e) (pipeline p) (pipeline p')"
  shows "\<exists>z. runWorkflow e this st p' =
     (case runWorkflow e this st p of (this1, st1, r) \<Rightarrow> (this1, st1\<lparr>spawned := z\<rparr>, r))"
proof -
  obtain this1 st1 r1 where 1: "run_stages e (pipeline p) this st = (this1, st1, r1)"
    by (cases "run_stages e (pipeline p) this st")
  from run_stages_alike [OF assms, where this = this and st = st and x = "spawned st"] obtain z
    where 2: "run_stages e (pipeline p') this st = (this1, st1\<lparr>spawned := z\<rparr>, r1)"
    unfolding 1 by auto
  show ?thesis
    by (rule exI [of _ z], cases r1)
       (simp_all add: runWorkflow_def runWorkflow_try_eq 1 2 updateProgress_spawned)
qed

lemma alike_result: "alike e s s' \<Longrightarrow> stage_result e s' = stage_result e s"
  by (cases s; cases s') (auto simp: script_result_def split: exit.splits)

lemma alike_scripts: "alike e s s' \<Longrightarrow> map fst (stage_tasks s') = map fst (stage_tasks s)"
  by (cases s; cases s') auto

lemma attempted_alike:
  "list_all2 (alike e) ss ss' \<Longrightarrow>
   map fst (concat (map stage_tasks (attempted e ss')))
     = map fst (concat (map stage_tasks (attempted e ss)))"
proof (induction ss ss' rule: list_all2_induct)
  case Nil
  show ?case by simp
next
  case (Cons s ss s' ss')
  show ?case
    using alike_result [OF Cons.hyps(1)] alike_scripts [OF Cons.hyps(1)] Cons.IH
    by (cases "stage_result e s") simp_all
qed

lemma pipeline_alike:
  assumes "world e ''product_analyzer.py'' [toLowerCase (scrapeSite p), productName p, outputFolder p]
         = world e ''product_analyzer.py'' [scrapeSite p, productName p, outputFolder p]"
  shows "list_all2 (alike e) (pipeline p) (pipeline (p\<lparr>scrapeSite := toLowerCase (scrapeSite p)\<rparr>))"
  using assms by (simp add: pipeline_def js_or_Nil toLowerCase_idem)

lemma pipeline_first:
  "toLowerCase (scrapeSite p) \<noteq> ''blinkit'' \<Longrightarrow>
   \<exists>rest. pipeline p =
     Task 1 ''Starting product analysis and scraping...'' ''product_analyzer.py''
       [scrapeSite p, productName p, outputFolder p] # rest"
  by (simp add: pipeline_def js_or_Nil)

lemma runWorkflow_first:
  assumes "toLowerCase (scrapeSite p) \<noteq> ''blinkit''"
  shows "\<exists>later. spawned (fst (snd (runWorkflow e this st p))) =
     spawned st @ (''product_analyzer.py'', [scrapeSite p, productName p, outputFolder p]) # later"
proof -
  from pipeline_first [OF assms] obtain rest where
    "pipeline p = Task 1 ''Starting product analysis and scraping...'' ''product_analyzer.py''
       [scrapeSite p, productName p, outputFolder p] # rest" ..
  then show ?thesis unfolding runWorkflow_facts(3) by simp
qed

subsection \<open>The run when \<^verbatim>\<open>POST\<close> returns\<close>

lemma chunks_at_spawn_python [simp]:
  "chunks_at (spawn_python st n args) a = chunks_at st a"
  by (simp add: spawn_python_def chunks_at_def)

lemma pipeline_head:
  "\<exists>script args rest.
     pipeline params = Task 1 ''Starting product analysis and scraping...'' script args # rest \<and>
     sorted (map stage_step rest) \<and>
     runWorkflow_suspended this st params =
       spawn_python (updateProgress (this\<lparr>currentStep := 1\<rparr>) st
         ''Starting product analysis and scraping...'' Running None) script args"
  by (cases "toLowerCase (js_or (scrapeSite params) []) = ''blinkit''")
     (simp_all add: pipeline_def runWorkflow_suspended_def Let_def)

lemma run_in_background_resumes:
  "\<exists>script args later more.
     spawned (runWorkflow_suspended (new_ScrapingOrchestrator sid) st params)
       = spawned st @ [(script, args)] \<and>
     spawned (run_in_background e sid st params)
       = spawned (runWorkflow_suspended (new_ScrapingOrchestrator sid) st params) @ later \<and>
     chunks_at (run_in_background e sid st params) a
       = chunks_at (runWorkflow_suspended (new_ScrapingOrchestrator sid) st params) a @ more"
proof -
  let ?o0 = "new_ScrapingOrchestrator sid"
  let ?o1 = "?o0\<lparr>currentStep := 1\<rparr>"
  let ?msg = "''Starting product analysis and scraping...''"
  let ?u = "updateProgress ?o1 st ?msg Running None"
  from pipeline_head [of params ?o0 st] obtain script args rest where
    p: "pipeline params = Task 1 ?msg script args # rest"
    and srt: "sorted (map stage_step rest)"
    and sus: "runWorkflow_suspended ?o0 st params = spawn_python ?u script args"
    by blast
  have t1: "totalSteps ?o1 = 6" by (simp add: new_ScrapingOrchestrator_def)
  obtain s1 r1 where 1: "runPythonScript e ?o1 ?u script args = (s1, r1)"
    by (cases "runPythonScript e ?o1 ?u script args")
  have "run_rel 1 1 ?u s1"
    using run_rel_runPythonScript [OF t1, of ?u e script args] 1 by simp
  from run_rel_chunks(1) [OF this, of a]
  have c1: "chunks_at s1 a = chunks_at ?u a @ received ?u s1 a" .
  obtain this2 s2 r2 where 2: "run_stages e (pipeline params) ?o0 st = (this2, s2, r2)"
    by (cases "run_stages e (pipeline params) ?o0 st")
  have "\<exists>x. chunks_at s2 a = chunks_at ?u a @ x"
  proof (cases r1)
    case (Inl err)
    then have "s2 = s1" using 2 unfolding p by (simp add: Let_def 1 del: One_nat_def)
    then show ?thesis using c1 by blast
  next
    case (Inr v)
    then have 3: "run_stages e rest ?o1 s1 = (this2, s2, r2)"
      using 2 unfolding p by (simp add: Let_def 1 del: One_nat_def)
    have "\<forall>s\<in>set rest. 0 \<le> stage_step s" by simp
    from run_stages_grows(1) [OF 3 t1 srt this, of a]
    have "chunks_at s2 a = chunks_at ?u a @ (received ?u s1 a @ received s1 s2 a)"
      unfolding c1 by simp
    then show ?thesis by blast
  qed
  then obtain x where c2: "chunks_at s2 a = chunks_at ?u a @ x" ..
  from run_in_background_chunks [of e sid st params a]
  obtain fin where "chunks_at (run_in_background e sid st params) a = chunks_at s2 a @ fin"
    unfolding 2 by auto
  then have c: "chunks_at (run_in_background e sid st params) a
      = chunks_at (runWorkflow_suspended ?o0 st params) a @ (x @ fin)"
    unfolding sus c2 by simp
  have a: "spawned (runWorkflow_suspended ?o0 st params) = spawned st @ [(script, args)]"
    unfolding sus by (simp add: spawn_python_def)
  have "spawned (run_in_background e sid st params)
      = spawned (runWorkflow_suspended ?o0 st params)
        @ concat (map stage_tasks (case stage_result e (Task 1 ?msg script args) of
                     Inl err \<Rightarrow> [] | Inr v \<Rightarrow> attempted e rest))"
    unfolding a run_in_background_facts p by simp
  with a c show ?thesis by blast
qed

lemma create_output_folder_registry:
  "create_output_folder e (st\<lparr>streams := ss, progressStreams := ps, timers := ts\<rparr>) r =
     (case create_output_folder e st r of
        Inl msg \<Rightarrow> Inl msg
      | Inr st' \<Rightarrow> Inr (st'\<lparr>streams := ss, progressStreams := ps, timers := ts\<rparr>))"
  by (simp add: create_output_folder_def split: option.splits)

lemma POST_registry:
  "fst (POST e (st\<lparr>streams := ss, progressStreams := ps, timers := ts\<rparr>) request)
     = fst (POST e st request)"
proof (cases request)
  case None
  then show ?thesis by (simp add: POST_def)
next
  case (Some b)
  show ?thesis
  proof (cases "valid_body b")
    case False
    show ?thesis unfolding Some POST_invalid_response [OF False] ..
  next
    case True
    show ?thesis
      unfolding Some POST_valid [OF True] create_output_folder_registry
      by (cases "create_output_folder e st (resolve e (the (body_outputFolder b)))") simp_all
  qed
qed

lemma POST_world:
  "fst (POST (e\<lparr>world := w\<rparr>) st request) = fst (POST e st request)"
proof (cases request)
  case None
  then show ?thesis by (simp add: POST_def)
next
  case (Some b)
  show ?thesis
  proof (cases "valid_body b")
    case False
    show ?thesis unfolding Some POST_invalid_response [OF False] ..
  next
    case True
    show ?thesis
      unfolding Some POST_valid [OF True]
      by (cases "create_output_folder e st (resolve e (the (body_outputFolder b)))")
         (simp_all add: make_sessionId_def)
  qed
qed

lemma POST_rejects:
  assumes "\<not> valid_body b"
  shows "POST e st (Some b) =
     (ErrorResponse 400
       (if falsy (body_scrapeSite b) \<or> falsy (body_productName b) \<or> falsy (body_outputFolder b)
           \<or> falsy (body_recipientEmail b)
        then ''Missing required fields''
        else if \<not> emailRegex_test (the (body_recipientEmail b)) then ''Invalid email format''
        else ''Supported sites are: Amazon, Blinkit''), st)"
proof -
  from POST_invalid [OF assms, of e st] have "snd (POST e st (Some b)) = st" by auto
  then show ?thesis using POST_invalid_response [OF assms, of e st] by (simp add: prod_eq_iff)
qed

section \<open>The claims\<close>

lemmas example_defs = env_ok_def env_fail_def env_readonly_def body_amazon_def
  body_blinkit_def params_amazon_def params_blinkit_def state_out_def state_subscribed_def
  initial_state_def env_nospawn_def env_nopython_def env_throws_def env_failing_def
  env_case_sensitive_def state_stale_def

subsection \<open>C4: subscribing twice\<close>

text \<open>
  C4, as stated, fails: a second \<^verbatim>\<open>GET\<close> for a session id that already has a subscriber
  (stream 0) is answered with a new stream (stream 1), and the registry entry of the
  session then holds stream 1 instead of stream 0.
\<close>

theorem GET_duplicate_counterexample:
  "fst (GET state_subscribed (Some ''scrape_5_abc'')) = EventStream 1 \<and>
   map_of (progressStreams state_subscribed) ''scrape_5_abc'' = Some 0 \<and>
   map_of (progressStreams (snd (GET state_subscribed (Some ''scrape_5_abc'')))) ''scrape_5_abc''
     = Some 1"
  by (simp add: example_defs GET_def controller_enqueue_def Let_def)

text \<open>
  C4, amended: subscribing (\<^verbatim>\<open>GET\<close>) fails exactly when the session id is absent or empty.
  For every other session id, registered already or not, it answers with a new stream,
  which becomes the subscriber of the session and has received the \<open>connected\<close> event
  only; every stream there was is left as it is, and none of them is the session's
  subscriber any more.
\<close>

theorem GET_replaces_subscriber:
  "((\<exists>m. fst (GET st q) = BadRequest m) \<longleftrightarrow> q = None \<or> q = Some []) \<and>
   (\<forall>sid. q = Some sid \<and> sid \<noteq> [] \<longrightarrow>
      fst (GET st q) = EventStream (length (streams st)) \<and>
      map_of (progressStreams (snd (GET st q))) sid = Some (length (streams st)) \<and>
      subscribed (snd (GET st q)) sid (length (streams st)) \<and>
      chunks_at (snd (GET st q)) (length (streams st)) = [connected] \<and>
      (\<forall>a<length (streams st). streams (snd (GET st q)) ! a = streams st ! a \<and>
         \<not> subscribed (snd (GET st q)) sid a))"
  by (cases q)
     (auto simp: GET_def controller_enqueue_def Let_def update_conv' subscribed_def chunks_at_def
        nth_append)

theorem GET_replaces_subscriber_witness:
  "fst (GET state_subscribed (Some ''scrape_5_abc'')) = EventStream 1 \<and>
   subscribed state_subscribed ''scrape_5_abc'' 0 \<and>
   \<not> subscribed (snd (GET state_subscribed (Some ''scrape_5_abc''))) ''scrape_5_abc'' 0 \<and>
   subscribed (snd (GET state_subscribed (Some ''scrape_5_abc''))) ''scrape_5_abc'' 1"
proof -
  have l: "length (streams state_subscribed) = 1"
    by (simp add: example_defs GET_def controller_enqueue_def Let_def)
  have s: "subscribed state_subscribed ''scrape_5_abc'' 0"
    by (simp add: example_defs GET_def controller_enqueue_def Let_def subscribed_def)
  show ?thesis
    using GET_replaces_subscriber [of state_subscribed "Some ''scrape_5_abc''"] l s by simp
qed

subsection \<open>C5: publishing without a subscriber, and failed deliveries\<close>

text \<open>
  C5: \<^verbatim>\<open>sendProgressUpdate\<close> for a session id that has no registered subscriber leaves the
  server as it is. When the registered controller refuses the event (\<^verbatim>\<open>enqueue\<close> throws),
  the event is dropped (no stream changes) and the entry of the session is removed. In
  no case does the orchestrator notice: from any two states of the server, \<^verbatim>\<open>runWorkflow\<close>
  ends at the same step, settles the same way and starts the same child processes.
\<close>

theorem sendProgressUpdate_never_raises:
  "(map_of (progressStreams st) sid = None \<longrightarrow> sendProgressUpdate st sid u = st) \<and>
   (\<forall>a. map_of (progressStreams st) sid = Some a \<and> controller_enqueue (streams st) a u = None \<longrightarrow>
        sendProgressUpdate st sid u = st\<lparr>progressStreams := AList.delete sid (progressStreams st)\<rparr> \<and>
        streams (sendProgressUpdate st sid u) = streams st \<and>
        map_of (progressStreams (sendProgressUpdate st sid u)) sid = None) \<and>
   fst (runWorkflow e this st params) = fst (runWorkflow e this st2 params) \<and>
   snd (snd (runWorkflow e this st params)) = snd (snd (runWorkflow e this st2 params)) \<and>
   (\<exists>tasks. spawned (fst (snd (runWorkflow e this st params))) = spawned st @ tasks \<and>
            spawned (fst (snd (runWorkflow e this st2 params))) = spawned st2 @ tasks)"
  by (simp add: sendProgressUpdate_def delete_conv' runWorkflow_facts)

theorem sendProgressUpdate_never_raises_witness:
  "map_of (progressStreams initial_state) ''scrape_5_abc'' = None \<and>
   sendProgressUpdate initial_state ''scrape_5_abc'' connected = initial_state \<and>
   map_of (progressStreams state_stale) ''scrape_5_abc'' = Some 0 \<and>
   controller_enqueue (streams state_stale) 0 connected = None \<and>
   streams (sendProgressUpdate state_stale ''scrape_5_abc'' connected) = streams state_stale \<and>
   map_of (progressStreams (sendProgressUpdate state_stale ''scrape_5_abc'' connected))
     ''scrape_5_abc'' = None"
proof -
  have 1: "map_of (progressStreams initial_state) ''scrape_5_abc'' = None"
    by (simp add: initial_state_def)
  have 2: "map_of (progressStreams state_stale) ''scrape_5_abc'' = Some 0"
    by (simp add: example_defs GET_def controller_enqueue_def Let_def)
  have 3: "controller_enqueue (streams state_stale) 0 connected = None"
    by (simp add: example_defs controller_enqueue_def)
  note a = sendProgressUpdate_never_raises [of initial_state "''scrape_5_abc''" connected env_ok
        "new_ScrapingOrchestrator ''scrape_5_abc''" params_amazon initial_state]
  note b = sendProgressUpdate_never_raises [of state_stale "''scrape_5_abc''" connected env_ok
        "new_ScrapingOrchestrator ''scrape_5_abc''" params_amazon initial_state]
  have "sendProgressUpdate initial_state ''scrape_5_abc'' connected = initial_state"
    using a 1 by blast
  moreover have
    "streams (sendProgressUpdate state_stale ''scrape_5_abc'' connected) = streams state_stale \<and>
     map_of (progressStreams (sendProgressUpdate state_stale ''scrape_5_abc'' connected))
       ''scrape_5_abc'' = None"
    using b 2 3 by blast
  ultimately show ?thesis using 1 2 3 by simp
qed

subsection \<open>C9: the output folder\<close>

text \<open>
  C9: for a body that passes the three checks, \<^verbatim>\<open>POST\<close> resolves the output folder. When the
  folder exists the request is accepted and no folder is created; when it does not exist
  and can be created, it is created and the request is accepted; when creating it fails,
  the answer is status 400 with the error's message and the server is left as it was (no
  session id, no child process). An accepted request runs its scripts on the resolved
  folder.
\<close>

theorem POST_creates_folder:
  "valid_body b \<Longrightarrow>
   (resolve e (the (body_outputFolder b)) \<in> set (folders st) \<longrightarrow>
      (\<exists>m. fst (POST e st (Some b)) = Success (make_sessionId e) m) \<and>
      folders (snd (POST e st (Some b))) = folders st) \<and>
   (resolve e (the (body_outputFolder b)) \<notin> set (folders st) \<and>
    mkdir_error e (resolve e (the (body_outputFolder b))) = None \<longrightarrow>
      (\<exists>m. fst (POST e st (Some b)) = Success (make_sessionId e) m) \<and>
      folders (snd (POST e st (Some b))) = resolve e (the (body_outputFolder b)) # folders st) \<and>
   (\<forall>msg. resolve e (the (body_outputFolder b)) \<notin> set (folders st) \<and>
          mkdir_error e (resolve e (the (body_outputFolder b))) = Some msg \<longrightarrow>
      POST e st (Some b) =
        (ErrorResponse 400
           (''Failed to create output folder at '' @ [CHR 0x22]
            @ resolve e (the (body_outputFolder b)) @ [CHR 0x22] @ '': '' @ msg), st)) \<and>
   (\<forall>sid m. fst (POST e st (Some b)) = Success sid m \<longrightarrow>
      spawned (snd (POST e st (Some b))) =
        spawned st @ concat (map stage_tasks (attempted e (pipeline
          \<lparr>scrapeSite = the (body_scrapeSite b), productName = the (body_productName b),
           outputFolder = resolve e (the (body_outputFolder b)),
           recipientEmail = the (body_recipientEmail b)\<rparr>))))"
proof -
  assume v: "valid_body b"
  let ?r = "resolve e (the (body_outputFolder b))"
  show ?thesis
  proof (cases "create_output_folder e st ?r")
    case (Inl msg)
    then have "?r \<notin> set (folders st) \<and> mkdir_error e ?r = Some msg"
      by (auto simp: create_output_folder_cases split: if_splits option.splits)
    then show ?thesis using Inl by (simp add: POST_valid [OF v])
  next
    case (Inr st')
    then have "(?r \<in> set (folders st) \<and> st' = st) \<or>
        (?r \<notin> set (folders st) \<and> mkdir_error e ?r = None \<and> st' = st\<lparr>folders := ?r # folders st\<rparr>)"
      by (auto simp: create_output_folder_cases split: if_splits option.splits)
    then show ?thesis using Inr
      by (auto simp: POST_valid [OF v] run_in_background_facts)
  qed
qed

theorem POST_creates_folder_witness:
  "valid_body body_amazon \<and>
   folders (snd (POST env_ok state_out (Some body_amazon))) = [''/out''] \<and>
   folders initial_state = [] \<and>
   folders (snd (POST env_ok initial_state (Some body_amazon))) = [''/out''] \<and>
   POST env_readonly initial_state (Some body_amazon) =
     (ErrorResponse 400
        (''Failed to create output folder at '' @ [CHR 0x22] @ ''/out'' @ [CHR 0x22]
         @ '': EACCES: permission denied''), initial_state)"
proof -
  have v: "valid_body body_amazon"
    by (simp add: valid_body_def body_amazon_def falsy_def email_ok lower_amazon supportedSites_def)
  have r: "resolve env_ok (the (body_outputFolder body_amazon)) = ''/out''"
    "resolve env_readonly (the (body_outputFolder body_amazon)) = ''/out''"
    "folders state_out = [''/out'']" "folders initial_state = []"
    "mkdir_error env_ok ''/out'' = None"
    "mkdir_error env_readonly ''/out'' = Some ''EACCES: permission denied''"
    by (simp_all add: example_defs)
  show ?thesis
    using v r POST_creates_folder [OF v, of env_ok state_out]
      POST_creates_folder [OF v, of env_ok initial_state]
      POST_creates_folder [OF v, of env_readonly initial_state]
    by simp
qed

subsection \<open>C2: the order of the steps\<close>

text \<open>
  C2, as stated, fails: in the same run the steps of the events the subscriber receives
  are 0, 1, 1, 0: the last event, the error event of \<^verbatim>\<open>POST\<close>, is at step 0.
\<close>

theorem step_decreases_counterexample:
  "map step (chunks_at (snd (POST env_fail state_out (Some body_amazon))) 0) = [0, 1, 1, 0]"
  unfolding POST_failing
  by (simp add: state_failed_def state_failed1_def chunks_at_def connected_def terminal_event_def
        fallback_event_def)

text \<open>
  C2, amended: in every run and for every stream, the events the stream receives from
  the orchestrator (from the start of \<^verbatim>\<open>runWorkflow\<close> to its end, its \<open>completed\<close> or \<open>error\<close>
  event included) are in non-decreasing step order and at steps up to the step the
  orchestrator has reached, which is at most 6. After a failure the session's
  subscriber receives one more event, the error event of \<^verbatim>\<open>POST\<close>, which is at step 0.
\<close>

theorem orchestrator_steps_sorted:
  assumes "runWorkflow e (new_ScrapingOrchestrator sid) st params = (this', st', r)"
  shows "chunks_at st' a = chunks_at st a @ received st st' a \<and>
         sorted (map step (received st st' a)) \<and>
         (\<forall>u\<in>set (received st st' a). step u \<le> currentStep this') \<and>
         currentStep this' \<le> 6 \<and>
         chunks_at (run_in_background e sid st params) a =
           chunks_at st' a @
           (case r of
              Inl err \<Rightarrow> if subscribed st' sid a then [fallback_event err] else []
            | Inr v \<Rightarrow> [])"
proof -
  let ?k = "currentStep this'"
  let ?T = "terminal_event ?k r"
  from runWorkflow_decomp(1) [OF assms] obtain st1
    where rel: "run_rel 1 ?k st st1" and st': "st' = sendProgressUpdate st1 sid ?T"
    by blast
  let ?runs = "received st st1 a"
  let ?t = "if subscribed st1 sid a then [?T] else []"
  note c = run_rel_chunks [OF rel, where a = a]
  have c2: "chunks_at st' a = chunks_at st1 a @ ?t"
    unfolding st' by (rule chunks_at_sendProgressUpdate)
  have all: "chunks_at st' a = chunks_at st a @ (?runs @ ?t)" unfolding c2 c(1) by simp
  then have r: "received st st' a = ?runs @ ?t" by (rule received_eq)
  have k: "step ?T = ?k" by (cases r) (simp_all add: terminal_event_def)
  have le: "\<forall>u\<in>set ?runs. step u \<le> ?k" using c(3) by blast
  have "sorted (map step (?runs @ ?t))"
    using c(2) le k by (simp add: sorted_append)
  moreover have "\<forall>u\<in>set (?runs @ ?t). step u \<le> ?k" using le k by auto
  moreover have "chunks_at (run_in_background e sid st params) a =
           chunks_at st' a @
           (case r of
              Inl err \<Rightarrow> if subscribed st' sid a then [fallback_event err] else []
            | Inr v \<Rightarrow> [])"
    unfolding run_in_background_eq [OF assms]
    by (cases r) (simp_all add: chunks_at_sendProgressUpdate)
  ultimately show ?thesis using all r runWorkflow_decomp(3) [OF assms] by simp
qed

theorem orchestrator_steps_sorted_witness:
  "map step (received state_out
      (fst (snd (runWorkflow env_fail (new_ScrapingOrchestrator ''scrape_5_abc'') state_out
         params_amazon))) 0) = [0, 1, 1] \<and>
   sorted (map step (received state_out
      (fst (snd (runWorkflow env_fail (new_ScrapingOrchestrator ''scrape_5_abc'') state_out
         params_amazon))) 0)) \<and>
   chunks_at (run_in_background env_fail ''scrape_5_abc'' state_out params_amazon) 0
     = chunks_at (fst (snd (runWorkflow env_fail (new_ScrapingOrchestrator ''scrape_5_abc'')
         state_out params_amazon))) 0 @ [fallback_event failure_message]"
proof -
  let ?st' = "sendProgressUpdate state_failed1 ''scrape_5_abc''
      (terminal_event 1 (Inl failure_message))"
  have s: "subscribed state_failed1 ''scrape_5_abc'' 0"
    by (simp add: state_failed1_def subscribed_def)
  then have s': "subscribed ?st' ''scrape_5_abc'' 0"
    by (simp add: subscribed_sendProgressUpdate)
  have c: "chunks_at ?st' 0 = [connected,
      \<lparr>step = 1, total' = 6, message = ''Running product_analyzer.py...'', status = Running,
       details = Some ''hi''\<rparr>, terminal_event 1 (Inl failure_message)]"
    using s by (simp add: chunks_at_sendProgressUpdate) (simp add: chunks_at_def state_failed1_def)
  have m: "map step (received state_out ?st' 0) = [0, 1, 1]"
    unfolding received_def c
    by (simp add: state_failed_facts connected_def terminal_event_def)
  show ?thesis
    using orchestrator_steps_sorted [OF runWorkflow_failing, of 0] m s'
    by (simp add: runWorkflow_failing)
qed

subsection \<open>C8: the fused branch of Blinkit\<close>

text \<open>
  C8: for a request whose site is \<open>blinkit\<close>, step 2 starts no process and publishes one
  running event, whose message says that steps 1 and 2 are both covered. In the whole
  run the first process started is that of \<^verbatim>\<open>blinkit.py\<close>, with the option \<^verbatim>\<open>--images\<close>, and
  every later one runs the script of one of the steps 3 to 6. Every event a stream
  receives during the run has total 6, and a stream receives at most one event at
  step 2, the annotated one.
\<close>

theorem blinkit_fused:
  assumes "toLowerCase (js_or (scrapeSite params) []) = ''blinkit''"
  shows
    "step2_image_scraping e params this st =
       (this\<lparr>currentStep := 2\<rparr>,
        sendProgressUpdate st (sessionId this)
          \<lparr>step = 2, total' = totalSteps this,
           message = ''Blinkit: Product analysis and image scraping completed (steps 1 & 2)'',
           status = Running, details = None\<rparr>,
        Inr []) \<and>
     (\<exists>later. spawned (run_in_background e sid st params) =
         spawned st @
         (''blinkit.py'', [''--brand'', productName params, ''--out-dir'', outputFolder params,
            ''--images'']) # later \<and>
         (\<forall>t\<in>set later. fst t \<in> {''text_extractor.py'', ''qr_orchestrator.py'',
            ''credential_check.py'', ''exception_reporter.py''})) \<and>
     (\<forall>u\<in>set (received st (run_in_background e sid st params) a). total' u = 6) \<and>
     (filter (\<lambda>u. step u = 2) (received st (run_in_background e sid st params) a) = [] \<or>
      filter (\<lambda>u. step u = 2) (received st (run_in_background e sid st params) a) =
        [\<lparr>step = 2, total' = 6,
          message = ''Blinkit: Product analysis and image scraping completed (steps 1 & 2)'',
          status = Running, details = None\<rparr>])"
proof (intro conjI)
  let ?msg = "''Blinkit: Product analysis and image scraping completed (steps 1 & 2)''"
  let ?T1 = "Task 1 ''Starting product analysis and scraping...'' ''blinkit.py''
      [''--brand'', productName params, ''--out-dir'', outputFolder params, ''--images'']"
  let ?rest = "[Note 2 ?msg,
      Task 3 ''Extracting text from images using AI...'' ''text_extractor.py'' [outputFolder params],
      Task 4 ''Detecting QR codes and barcodes...'' ''qr_orchestrator.py'' [outputFolder params],
      Task 5 ''Merging data and checking credentials...'' ''credential_check.py''
        [outputFolder params],
      Task 6 ''Sending email report...'' ''exception_reporter.py''
        [outputFolder params, recipientEmail params]]"
  have p: "pipeline params = ?T1 # ?rest" using assms by (simp add: pipeline_def)
  show "step2_image_scraping e params this st =
       (this\<lparr>currentStep := 2\<rparr>,
        sendProgressUpdate st (sessionId this)
          \<lparr>step = 2, total' = totalSteps this, message = ?msg, status = Running, details = None\<rparr>,
        Inr [])"
    using assms by (simp add: step2_image_scraping_def updateProgress_def)
  let ?X = "case stage_result e ?T1 of Inl err \<Rightarrow> [] | Inr v \<Rightarrow> attempted e ?rest"
  have att: "attempted e (pipeline params) = ?T1 # ?X" unfolding p by simp
  have "set ?X \<subseteq> set ?rest"
    using attempted_subset [of e ?rest] by (cases "stage_result e ?T1") simp_all
  then have "\<forall>t\<in>set (concat (map stage_tasks ?X)). fst t \<in> {''text_extractor.py'',
      ''qr_orchestrator.py'', ''credential_check.py'', ''exception_reporter.py''}"
    by fastforce
  moreover have "spawned (run_in_background e sid st params) =
      spawned st @ (''blinkit.py'', [''--brand'', productName params, ''--out-dir'',
        outputFolder params, ''--images'']) # concat (map stage_tasks ?X)"
    unfolding run_in_background_facts(1) att by simp
  ultimately show "\<exists>later. spawned (run_in_background e sid st params) =
         spawned st @
         (''blinkit.py'', [''--brand'', productName params, ''--out-dir'', outputFolder params,
            ''--images'']) # later \<and>
         (\<forall>t\<in>set later. fst t \<in> {''text_extractor.py'', ''qr_orchestrator.py'',
            ''credential_check.py'', ''exception_reporter.py''})"
    by blast
  let ?o0 = "new_ScrapingOrchestrator sid"
  let ?k = "stage_step (last (attempted e (pipeline params)))"
  let ?r = "stages_result e (pipeline params)"
  obtain this1 st1 r1 where 1: "run_stages e (pipeline params) ?o0 st = (this1, st1, r1)"
    by (cases "run_stages e (pipeline params) ?o0 st")
  define final where "final =
     (if subscribed st1 sid a
      then terminal_event ?k ?r # (case ?r of Inl err \<Rightarrow> [fallback_event err] | Inr v \<Rightarrow> [])
      else [])"
  have t0: "totalSteps ?o0 = 6" by (simp add: new_ScrapingOrchestrator_def)
  have lo: "\<forall>s\<in>set (pipeline params). 1 \<le> stage_step s" using pipeline_steps by blast
  note g = run_stages_grows [OF 1 t0 pipeline_sorted lo, where a = a]
  have c: "chunks_at (run_in_background e sid st params) a = chunks_at st1 a @ final"
    using run_in_background_chunks [of e sid st params a] 1 by (simp add: final_def)
  then have "chunks_at (run_in_background e sid st params) a
      = chunks_at st a @ (received st st1 a @ final)"
    using g(1) by simp
  then have r: "received st (run_in_background e sid st params) a = received st st1 a @ final"
    by (rule received_eq)
  have sub: "set final \<subseteq> {terminal_event ?k ?r} \<union> {u. \<exists>err. u = fallback_event err}"
    by (cases ?r) (auto simp add: final_def)
  have tt: "\<forall>u\<in>set final. total' u = 6"
  proof
    fix u assume "u \<in> set final"
    with sub have "u = terminal_event ?k ?r \<or> (\<exists>err. u = fallback_event err)" by blast
    then show "total' u = 6"
      by (cases ?r) (auto simp add: terminal_event_def fallback_event_def)
  qed
  show "\<forall>u\<in>set (received st (run_in_background e sid st params) a). total' u = 6"
  proof
    fix u assume "u \<in> set (received st (run_in_background e sid st params) a)"
    then have "u \<in> set (received st st1 a) \<or> u \<in> set final" unfolding r by simp
    then show "total' u = 6" using g(2) tt by blast
  qed
  have ne: "attempted e (pipeline params) \<noteq> []" unfolding att by simp
  have mem: "last (attempted e (pipeline params)) \<in> set (pipeline params)"
    using attempted_subset [of e "pipeline params"] last_in_set [OF ne] by blast
  have note2: "Note 2 ?msg \<in> set (pipeline params)" unfolding p by simp
  have lastp: "last (pipeline params) \<noteq> Note 2 ?msg" unfolding p by simp
  have k: "?k \<noteq> 2"
  proof
    assume k2: "?k = 2"
    have "distinct (map stage_step (pipeline params))"
      using pipeline_strict [of params] by (simp add: strict_sorted_iff)
    then have inj: "inj_on stage_step (set (pipeline params))" by (simp add: distinct_map)
    have "stage_step (last (attempted e (pipeline params))) = stage_step (Note 2 ?msg)"
      using k2 by simp
    from inj_onD [OF inj this mem note2]
    have eq: "last (attempted e (pipeline params)) = Note 2 ?msg" .
    from last_attempted [OF pipeline_not_Nil, of e params] show False
      unfolding eq using lastp eq by auto
  qed
  have "\<forall>u\<in>set final. step u \<noteq> 2"
  proof
    fix u assume "u \<in> set final"
    with sub have "u = terminal_event ?k ?r \<or> (\<exists>err. u = fallback_event err)" by blast
    then show "step u \<noteq> 2"
      using k by (cases ?r) (auto simp add: terminal_event_def fallback_event_def)
  qed
  then have ft: "filter (\<lambda>u. step u = 2) final = []"
    by (simp only: filter_empty_conv)
  from note_events [OF 1 t0 pipeline_strict note2, of a]
  show "filter (\<lambda>u. step u = 2) (received st (run_in_background e sid st params) a) = [] \<or>
      filter (\<lambda>u. step u = 2) (received st (run_in_background e sid st params) a) =
        [\<lparr>step = 2, total' = 6, message = ?msg, status = Running, details = None\<rparr>]"
    unfolding r filter_append ft by simp
qed

theorem blinkit_fused_witness:
  "toLowerCase (js_or (scrapeSite params_blinkit) []) = ''blinkit'' \<and>
   step2_image_scraping env_ok params_blinkit
       ((new_ScrapingOrchestrator ''scrape_5_abc'')\<lparr>currentStep := 1\<rparr>) state_subscribed =
     ((new_ScrapingOrchestrator ''scrape_5_abc'')\<lparr>currentStep := 2\<rparr>,
      sendProgressUpdate state_subscribed ''scrape_5_abc''
        \<lparr>step = 2, total' = 6,
         message = ''Blinkit: Product analysis and image scraping completed (steps 1 & 2)'',
         status = Running, details = None\<rparr>,
      Inr []) \<and>
   (\<exists>later. spawned (run_in_background env_ok ''scrape_5_abc'' state_subscribed params_blinkit) =
       (''blinkit.py'', [''--brand'', ''tea'', ''--out-dir'', ''/out'', ''--images'']) # later \<and>
       list_all (\<lambda>t. fst t \<in> {''text_extractor.py'', ''qr_orchestrator.py'',
          ''credential_check.py'', ''exception_reporter.py''}) later) \<and>
   list_all (\<lambda>u. total' u = 6)
     (received state_subscribed
        (run_in_background env_ok ''scrape_5_abc'' state_subscribed params_blinkit) 0) \<and>
   filter (\<lambda>u. step u = 2)
     (received state_subscribed
        (run_in_background env_ok ''scrape_5_abc'' state_subscribed params_blinkit) 0) =
     [\<lparr>step = 2, total' = 6,
       message = ''Blinkit: Product analysis and image scraping completed (steps 1 & 2)'',
       status = Running, details = None\<rparr>]"
proof -
  let ?ev = "\<lparr>step = 2, total' = 6,
       message = ''Blinkit: Product analysis and image scraping completed (steps 1 & 2)'',
       status = Running, details = None\<rparr>"
  let ?o1 = "(new_ScrapingOrchestrator ''scrape_5_abc'')\<lparr>currentStep := 1\<rparr>"
  let ?run = "run_in_background env_ok ''scrape_5_abc'' state_subscribed params_blinkit"
  have l: "toLowerCase (js_or (scrapeSite params_blinkit) []) = ''blinkit''"
    by (simp add: params_blinkit_def js_or_def lower_blinkit)
  note t = blinkit_fused [OF l, of env_ok "?o1" state_subscribed "''scrape_5_abc''" 0]
  have sp: "spawned state_subscribed = []"
    by (simp add: state_subscribed_def state_out_def initial_state_def GET_def
        controller_enqueue_def)
  have "?ev \<in> set (received state_subscribed ?run 0)"
    using note_delivered [OF l quiet_env_ok state_subscribed_facts(1) script_result_env_ok] .
  moreover have "step ?ev = 2" by simp
  ultimately have "\<exists>u\<in>set (received state_subscribed ?run 0). step u = 2" by (rule bexI [rotated])
  then have "filter (\<lambda>u. step u = 2) (received state_subscribed ?run 0) \<noteq> []"
    by (simp only: filter_empty_conv) blast
  then have d: "filter (\<lambda>u. step u = 2) (received state_subscribed ?run 0) = [?ev]"
    using t by blast
  have a: "step2_image_scraping env_ok params_blinkit ?o1 state_subscribed =
     ((new_ScrapingOrchestrator ''scrape_5_abc'')\<lparr>currentStep := 2\<rparr>,
      sendProgressUpdate state_subscribed ''scrape_5_abc'' ?ev, Inr [])"
    using t by (simp add: new_ScrapingOrchestrator_def)
  have b: "\<exists>later. spawned ?run =
       (''blinkit.py'', [''--brand'', ''tea'', ''--out-dir'', ''/out'', ''--images'']) # later \<and>
       list_all (\<lambda>t. fst t \<in> {''text_extractor.py'', ''qr_orchestrator.py'',
          ''credential_check.py'', ''exception_reporter.py''}) later"
    using t unfolding sp list_all_iff by (simp add: params_blinkit_def)
  have c: "list_all (\<lambda>u. total' u = 6) (received state_subscribed ?run 0)"
    using t unfolding list_all_iff by blast
  show ?thesis using l a b c d by blast
qed

subsection \<open>C6: the outcome of a script\<close>

text \<open>
  C6, as stated, fails in its last part: on a machine without \<^verbatim>\<open>python\<close> the executable
  cannot be started, and the promise of \<^verbatim>\<open>runPythonScript\<close> is rejected with the message of
  a process that exited with a code other than 0, here 127, not with one of its own. The
  option \<^verbatim>\<open>shell: true\<close> makes the child process a shell, which starts and then fails to
  run the command.
\<close>

theorem spawn_failure_counterexample:
  "exit (world env_nopython ''blinkit.py'' []) = Close (Some 127) \<and>
   snd (runPythonScript env_nopython (new_ScrapingOrchestrator ''s'') initial_state
          ''blinkit.py'' [])
     = Inl (''Script blinkit.py failed with code 127. ''
            @ ''Error: /bin/sh: 1: python: not found'')"
  by (simp add: runPythonScript_result script_result_def env_nopython_def env_ok_def
        string_of_code_def decimal_int_def digit_def)

text \<open>
  C6, amended: \<^verbatim>\<open>runPythonScript\<close> makes exactly one call of \<^verbatim>\<open>spawn\<close>. Its promise resolves
  exactly when the child process closes with exit code 0, and then with all of the
  standard output; on any other exit code it rejects with a message that carries the code
  and all of the standard error, also when the interpreter or the script cannot be
  started, since the child is a shell and then closes with a code of its own. When the
  child process emits \<^verbatim>\<open>error\<close> (the shell cannot be spawned) it rejects with the message
  \<^verbatim>\<open>Failed to start script ...\<close>, which is never the message of a process that exited.
  When \<^verbatim>\<open>spawn\<close> throws, the promise is rejected with the error thrown and no event of a
  child process is handled.
\<close>

theorem runPythonScript_outcome:
  "spawned (fst (runPythonScript e this st n args)) = spawned st @ [(n, args)] \<and>
   ((\<exists>out. snd (runPythonScript e this st n args) = Inr out)
      \<longleftrightarrow> exit (world e n args) = Close (Some 0)) \<and>
   (exit (world e n args) = Close (Some 0) \<longrightarrow>
      snd (runPythonScript e this st n args) = Inr (captured_stdout (io (world e n args)))) \<and>
   (\<forall>code. exit (world e n args) = Close code \<and> code \<noteq> Some 0 \<longrightarrow>
      snd (runPythonScript e this st n args)
        = Inl (''Script '' @ n @ '' failed with code '' @ string_of_code code @ ''. Error: ''
               @ captured_stderr (io (world e n args)))) \<and>
   (\<forall>msg. exit (world e n args) = SpawnFailed msg \<longrightarrow>
      snd (runPythonScript e this st n args) = Inl (''Failed to start script '' @ n @ '': '' @ msg) \<and>
      (\<forall>code err. snd (runPythonScript e this st n args)
         \<noteq> Inl (''Script '' @ n @ '' failed with code '' @ string_of_code code @ ''. Error: '' @ err))) \<and>
   (\<forall>msg. exit (world e n args) = Thrown msg \<longrightarrow>
      runPythonScript e this st n args = (spawn_python st n args, Inl msg))"
proof -
  have "\<forall>msg. exit (world e n args) = Thrown msg \<longrightarrow>
      runPythonScript e this st n args = (spawn_python st n args, Inl msg)"
    by (simp add: runPythonScript_def)
  then show ?thesis
    by (cases "exit (world e n args)")
       (auto simp: runPythonScript_result runPythonScript_frame script_result_def
          spawn_python_def)
qed

theorem runPythonScript_outcome_witness:
  "snd (runPythonScript env_ok (new_ScrapingOrchestrator ''s'') initial_state ''image_scraper.py'' [''/out''])
     = Inr ''ok '' \<and>
   snd (runPythonScript env_fail (new_ScrapingOrchestrator ''s'') initial_state ''product_analyzer.py'' [])
     = Inl ''Script product_analyzer.py failed with code 1. Error: boom'' \<and>
   snd (runPythonScript env_nopython (new_ScrapingOrchestrator ''s'') initial_state ''blinkit.py'' [])
     = Inl ''Script blinkit.py failed with code 127. Error: /bin/sh: 1: python: not found'' \<and>
   snd (runPythonScript env_nospawn (new_ScrapingOrchestrator ''s'') initial_state ''blinkit.py'' [])
     = Inl ''Failed to start script blinkit.py: spawn ENOENT'' \<and>
   runPythonScript env_throws (new_ScrapingOrchestrator ''s'') initial_state ''blinkit.py'' []
     = (initial_state\<lparr>spawned := [(''blinkit.py'', [])]\<rparr>, Inl ''spawn E2BIG'')"
proof -
  have 1: "exit (world env_ok ''image_scraper.py'' [''/out'']) = Close (Some 0)"
    "captured_stdout (io (world env_ok ''image_scraper.py'' [''/out''])) = ''ok ''"
    by (simp_all add: example_defs)
  have 2: "exit (world env_fail ''product_analyzer.py'' []) = Close (Some 1)"
    "captured_stderr (io (world env_fail ''product_analyzer.py'' [])) = ''boom''"
    "string_of_code (Some 1) = ''1''"
    by (simp_all add: example_defs string_of_code_def decimal_int_def digit_def)
  have 3: "exit (world env_nospawn ''blinkit.py'' []) = SpawnFailed ''spawn ENOENT''"
    by (simp add: example_defs)
  have 4: "exit (world env_nopython ''blinkit.py'' []) = Close (Some 127)"
    "captured_stderr (io (world env_nopython ''blinkit.py'' [])) = ''/bin/sh: 1: python: not found''"
    "string_of_code (Some 127) = ''127''"
    by (simp_all add: example_defs string_of_code_def decimal_int_def digit_def)
  have 5: "exit (world env_throws ''blinkit.py'' []) = Thrown ''spawn E2BIG''"
    "spawn_python initial_state ''blinkit.py'' [] = initial_state\<lparr>spawned := [(''blinkit.py'', [])]\<rparr>"
    by (simp_all add: example_defs spawn_python_def)
  note t = runPythonScript_outcome [of env_ok "new_ScrapingOrchestrator ''s''" initial_state
        "''image_scraper.py''" "[''/out'']"]
      runPythonScript_outcome [of env_fail "new_ScrapingOrchestrator ''s''" initial_state
        "''product_analyzer.py''" "[]"]
      runPythonScript_outcome [of env_nopython "new_ScrapingOrchestrator ''s''" initial_state
        "''blinkit.py''" "[]"]
      runPythonScript_outcome [of env_nospawn "new_ScrapingOrchestrator ''s''" initial_state
        "''blinkit.py''" "[]"]
      runPythonScript_outcome [of env_throws "new_ScrapingOrchestrator ''s''" initial_state
        "''blinkit.py''" "[]"]
  show ?thesis
    using 1 2 3 4 5 t by simp
qed

subsection \<open>C3: a failing stage stops the run\<close>



subsection \<open>C1: the terminal events of a run\<close>

text \<open>
  C1, as stated, fails: in the world \<open>env_fail\<close> a client subscribes while the first script
  runs, the script fails, and the client's stream receives two events of status \<open>error\<close>,
  the one of \<^verbatim>\<open>runWorkflow\<close> and the one of the \<^verbatim>\<open>catch\<close> callback in \<^verbatim>\<open>POST\<close>.
\<close>

theorem two_terminal_events_counterexample:
  "map status (chunks_at (snd (POST env_fail state_out (Some body_amazon))) 0)
     = [Running, Running, Error, Error]"
  unfolding POST_failing
  by (simp add: state_failed_def state_failed1_def chunks_at_def connected_def terminal_event_def
        fallback_event_def)

text \<open>
  C1, amended: in every run and for every stream, what the stream receives during the
  run is a sequence of running events followed by the terminal events, which come last
  and reach the stream exactly when it is the session's subscriber at the end of the
  run. When the task of every stage succeeds, there is one terminal event, the
  \<open>completed\<close> event at step 6. When the task of a stage fails and those of the stages
  before it succeed, there are two, both \<open>error\<close> events with the message of the failure:
  the one of \<^verbatim>\<open>runWorkflow\<close> at the step of the failing stage and then the one of \<^verbatim>\<open>POST\<close> at
  step 0.
\<close>

theorem terminal_events:
  "((\<forall>s\<in>set (pipeline params). stage_ok e s) \<longrightarrow>
      (\<exists>runs. (\<forall>u\<in>set runs. status u = Running) \<and>
         chunks_at (run_in_background e sid st params) a =
           chunks_at st a @ runs @
           (if subscribed (run_in_background e sid st params) sid a
            then [\<lparr>step = 6, total' = 6, message = ''All tasks completed successfully!'',
                   status = Completed, details = None\<rparr>]
            else []))) \<and>
   (\<forall>pre n msg script args rest.
      pipeline params = pre @ Task n msg script args # rest \<and>
      (\<forall>s\<in>set pre. stage_ok e s) \<and> exit (world e script args) \<noteq> Close (Some 0) \<longrightarrow>
      (\<exists>err runs.
         snd (runPythonScript e this0 st0 script args) = Inl err \<and>
         (\<forall>u\<in>set runs. status u = Running) \<and>
         chunks_at (run_in_background e sid st params) a =
           chunks_at st a @ runs @
           (if subscribed (run_in_background e sid st params) sid a
            then [\<lparr>step = n, total' = 6, message = ''Error: '' @ err, status = Error,
                   details = None\<rparr>,
                  \<lparr>step = 0, total' = 6, message = ''Workflow failed: '' @ err,
                   status = Error, details = None\<rparr>]
            else [])))"
proof (intro conjI allI impI)
  obtain this' st' r where w: "runWorkflow e (new_ScrapingOrchestrator sid) st params = (this', st', r)"
    by (cases "runWorkflow e (new_ScrapingOrchestrator sid) st params")
  from run_events [OF w, of a] obtain runs where
    run: "\<forall>u\<in>set runs. status u = Running"
    and sub: "subscribed (run_in_background e sid st params) sid a = subscribed st' sid a"
    and c: "chunks_at (run_in_background e sid st params) a =
             chunks_at st a @ runs @
             (if subscribed st' sid a
              then terminal_event (currentStep this') r
                   # (case r of Inl err \<Rightarrow> [fallback_event err] | Inr v \<Rightarrow> [])
              else [])"
    by blast
  {
    assume "\<forall>s\<in>set (pipeline params). stage_ok e s"
    from stages_all_ok [OF this]
    have r: "r = Inr ()" using runWorkflow_decomp(4) [OF w] by simp
    then have k: "currentStep this' = 6" using runWorkflow_decomp(5) [OF w] by simp
    have "chunks_at (run_in_background e sid st params) a =
           chunks_at st a @ runs @
           (if subscribed (run_in_background e sid st params) sid a
            then [\<lparr>step = 6, total' = 6, message = ''All tasks completed successfully!'',
                   status = Completed, details = None\<rparr>]
            else [])"
      unfolding c sub by (simp add: r k terminal_event_def)
    then show "\<exists>runs. (\<forall>u\<in>set runs. status u = Running) \<and>
         chunks_at (run_in_background e sid st params) a =
           chunks_at st a @ runs @
           (if subscribed (run_in_background e sid st params) sid a
            then [\<lparr>step = 6, total' = 6, message = ''All tasks completed successfully!'',
                   status = Completed, details = None\<rparr>]
            else [])"
      using run by blast
  }
  {
    fix pre n msg script args rest
    assume "pipeline params = pre @ Task n msg script args # rest \<and>
      (\<forall>s\<in>set pre. stage_ok e s) \<and> exit (world e script args) \<noteq> Close (Some 0)"
    then have p: "pipeline params = pre @ Task n msg script args # rest"
      and ok: "\<forall>s\<in>set pre. stage_ok e s"
      and bad: "\<not> stage_ok e (Task n msg script args)"
      by simp_all
    from stage_failed [OF bad] obtain err where err: "script_result e script args = Inl err" ..
    then have se: "stage_result e (Task n msg script args) = Inl err" by simp
    from stages_first_failure [OF ok se, of rest]
    have res: "stages_result e (pipeline params) = Inl err"
      and att: "attempted e (pipeline params) = pre @ [Task n msg script args]"
      unfolding p by simp_all
    have r: "r = Inl err" using runWorkflow_decomp(4) [OF w] res by simp
    have k: "currentStep this' = n"
      using runWorkflow_facts(1) [of e "new_ScrapingOrchestrator sid" st params] w att by simp
    have rp: "snd (runPythonScript e this0 st0 script args) = Inl err"
      using err by (simp add: runPythonScript_result)
    have "chunks_at (run_in_background e sid st params) a =
           chunks_at st a @ runs @
           (if subscribed (run_in_background e sid st params) sid a
            then [\<lparr>step = n, total' = 6, message = ''Error: '' @ err, status = Error,
                   details = None\<rparr>,
                  \<lparr>step = 0, total' = 6, message = ''Workflow failed: '' @ err,
                   status = Error, details = None\<rparr>]
            else [])"
      unfolding c sub by (simp add: r k terminal_event_def fallback_event_def)
    then show "\<exists>err runs.
         snd (runPythonScript e this0 st0 script args) = Inl err \<and>
         (\<forall>u\<in>set runs. status u = Running) \<and>
         chunks_at (run_in_background e sid st params) a =
           chunks_at st a @ runs @
           (if subscribed (run_in_background e sid st params) sid a
            then [\<lparr>step = n, total' = 6, message = ''Error: '' @ err, status = Error,
                   details = None\<rparr>,
                  \<lparr>step = 0, total' = 6, message = ''Workflow failed: '' @ err,
                   status = Error, details = None\<rparr>]
            else [])"
      using run rp by blast
  }
qed

theorem terminal_events_witness:
  "(\<exists>runs. list_all (\<lambda>u. status u = Running) runs \<and>
      chunks_at (run_in_background (env_failing ''text_extractor.py'') ''scrape_5_abc''
          state_subscribed params_amazon) 0
        = connected # runs @
          [\<lparr>step = 3, total' = 6,
            message = ''Error: Script text_extractor.py failed with code 1. Error: boom'',
            status = Error, details = None\<rparr>,
           \<lparr>step = 0, total' = 6,
            message = ''Workflow failed: Script text_extractor.py failed with code 1. Error: boom'',
            status = Error, details = None\<rparr>]) \<and>
   (\<exists>runs. list_all (\<lambda>u. status u = Running) runs \<and>
      chunks_at (run_in_background env_ok ''scrape_5_abc'' state_subscribed params_amazon) 0
        = connected # runs @
          [\<lparr>step = 6, total' = 6, message = ''All tasks completed successfully!'',
            status = Completed, details = None\<rparr>])"
proof
  let ?e = "env_failing ''text_extractor.py''"
  let ?o = "new_ScrapingOrchestrator ''scrape_5_abc''"
  let ?pre = "[Task 1 ''Starting product analysis and scraping...'' ''product_analyzer.py''
        [''Amazon'', ''tea'', ''/out''],
      Task 2 ''Scraping product images...'' ''image_scraper.py'' [''/out'']]"
  have ok: "\<forall>s\<in>set ?pre. stage_ok ?e s" by (simp add: env_failing_def env_ok_def)
  have bad: "exit (world ?e ''text_extractor.py'' [''/out'']) \<noteq> Close (Some 0)"
    by (simp add: env_failing_def env_ok_def)
  have msg: "snd (runPythonScript ?e ?o state_subscribed ''text_extractor.py'' [''/out''])
      = Inl ''Script text_extractor.py failed with code 1. Error: boom''"
    by (simp add: runPythonScript_result script_result_def env_failing_def env_ok_def
          string_of_code_def decimal_int_def digit_def)
  have s: "subscribed (run_in_background ?e ''scrape_5_abc'' state_subscribed params_amazon)
          ''scrape_5_abc'' 0"
    by (simp add: subscribed_run_in_background [OF quiet_env_failing] state_subscribed_facts)
  from terminal_events [of params_amazon ?e "''scrape_5_abc''" state_subscribed 0 ?o
      state_subscribed] pipeline_amazon ok bad
  obtain err runs where
    t: "snd (runPythonScript ?e ?o state_subscribed ''text_extractor.py'' [''/out'']) = Inl err"
      "\<forall>u\<in>set runs. status u = Running"
      "chunks_at (run_in_background ?e ''scrape_5_abc'' state_subscribed params_amazon) 0 =
         chunks_at state_subscribed 0 @ runs @
         (if subscribed (run_in_background ?e ''scrape_5_abc'' state_subscribed params_amazon)
               ''scrape_5_abc'' 0
          then [\<lparr>step = 3, total' = 6, message = ''Error: '' @ err, status = Error,
                 details = None\<rparr>,
                \<lparr>step = 0, total' = 6, message = ''Workflow failed: '' @ err,
                 status = Error, details = None\<rparr>]
          else [])"
    by blast
  have err: "err = ''Script text_extractor.py failed with code 1. Error: boom''"
    using t(1) msg by simp
  show "\<exists>runs. list_all (\<lambda>u. status u = Running) runs \<and>
      chunks_at (run_in_background ?e ''scrape_5_abc'' state_subscribed params_amazon) 0
        = connected # runs @
          [\<lparr>step = 3, total' = 6,
            message = ''Error: Script text_extractor.py failed with code 1. Error: boom'',
            status = Error, details = None\<rparr>,
           \<lparr>step = 0, total' = 6,
            message = ''Workflow failed: Script text_extractor.py failed with code 1. Error: boom'',
            status = Error, details = None\<rparr>]"
    using t(2,3) s err by (intro exI [of _ runs]) (simp add: state_subscribed_facts list_all_iff)
next
  let ?o = "new_ScrapingOrchestrator ''scrape_5_abc''"
  have ok: "\<forall>s\<in>set (pipeline params_amazon). stage_ok env_ok s"
    by (simp add: pipeline_amazon env_ok_def)
  have s: "subscribed (run_in_background env_ok ''scrape_5_abc'' state_subscribed params_amazon)
          ''scrape_5_abc'' 0"
    by (simp add: subscribed_run_in_background [OF quiet_env_ok] state_subscribed_facts)
  from terminal_events [of params_amazon env_ok "''scrape_5_abc''" state_subscribed 0 ?o
      state_subscribed] ok
  obtain runs where
    t: "\<forall>u\<in>set runs. status u = Running"
      "chunks_at (run_in_background env_ok ''scrape_5_abc'' state_subscribed params_amazon) 0 =
         chunks_at state_subscribed 0 @ runs @
         (if subscribed (run_in_background env_ok ''scrape_5_abc'' state_subscribed params_amazon)
               ''scrape_5_abc'' 0
          then [\<lparr>step = 6, total' = 6, message = ''All tasks completed successfully!'',
                 status = Completed, details = None\<rparr>]
          else [])"
    by blast
  show "\<exists>runs. list_all (\<lambda>u. status u = Running) runs \<and>
      chunks_at (run_in_background env_ok ''scrape_5_abc'' state_subscribed params_amazon) 0
        = connected # runs @
          [\<lparr>step = 6, total' = 6, message = ''All tasks completed successfully!'',
            status = Completed, details = None\<rparr>]"
    using t s by (intro exI [of _ runs]) (simp add: state_subscribed_facts list_all_iff)
qed

subsection \<open>C10: the letter case of the site\<close>

text \<open>
  C10, as stated, fails in its second part: the Amazon branch hands the site to
  \<^verbatim>\<open>product_analyzer.py\<close> as the request spells it, so the tasks of the request \<open>Amazon\<close> and
  of the request \<open>amazon\<close> differ in that argument; in a world in which the script knows the
  site in lower case only, the first request starts one child process and the second
  starts six.
\<close>

theorem site_case_counterexample:
  "spawned (snd (POST env_case_sensitive state_out (Some body_amazon)))
     = [(''product_analyzer.py'', [''Amazon'', ''tea'', ''/out''])] \<and>
   spawned (snd (POST env_case_sensitive state_out
       (Some (body_amazon\<lparr>body_scrapeSite := Some (toLowerCase ''Amazon'')\<rparr>))))
     = [(''product_analyzer.py'', [''amazon'', ''tea'', ''/out'']),
        (''image_scraper.py'', [''/out'']), (''text_extractor.py'', [''/out'']),
        (''qr_orchestrator.py'', [''/out'']), (''credential_check.py'', [''/out'']),
        (''exception_reporter.py'', [''/out'', ''a@b.c''])]"
proof -
  have v: "valid_body body_amazon"
    "valid_body (body_amazon\<lparr>body_scrapeSite := Some ''amazon''\<rparr>)"
    by (simp_all add: valid_body_def body_amazon_def falsy_def email_ok lower_amazon
        supportedSites_def toLowerCase_idem [of "''Amazon''", unfolded lower_amazon])
  have f: "create_output_folder env_case_sensitive state_out ''/out'' = Inr state_out"
    by (simp add: create_output_folder_def state_out_def)
  have r: "resolve env_case_sensitive ''/out'' = ''/out''"
    by (simp add: env_case_sensitive_def env_ok_def)
  have l: "toLowerCase ''amazon'' = ''amazon''"
    using toLowerCase_idem [of "''Amazon''"] by (simp add: lower_amazon)
  have s: "spawned state_out = []" by (simp add: state_out_def initial_state_def)
  let ?sid = "make_sessionId env_case_sensitive"
  have 1: "snd (POST env_case_sensitive state_out (Some body_amazon))
      = run_in_background env_case_sensitive ?sid state_out params_amazon"
    unfolding POST_valid [OF v(1)] by (simp add: body_amazon_def params_amazon_def r f)
  have 2: "snd (POST env_case_sensitive state_out
        (Some (body_amazon\<lparr>body_scrapeSite := Some ''amazon''\<rparr>)))
      = run_in_background env_case_sensitive ?sid state_out
          (params_amazon\<lparr>scrapeSite := ''amazon''\<rparr>)"
    unfolding POST_valid [OF v(2)] by (simp add: body_amazon_def params_amazon_def r f)
  have 3: "spawned (run_in_background env_case_sensitive ?sid state_out params_amazon)
      = [(''product_analyzer.py'', [''Amazon'', ''tea'', ''/out''])]"
    unfolding run_in_background_facts s
    by (simp add: pipeline_def js_or_def params_amazon_def lower_amazon script_result_def
          env_case_sensitive_def env_ok_def)
  have 4: "spawned (run_in_background env_case_sensitive ?sid state_out
          (params_amazon\<lparr>scrapeSite := ''amazon''\<rparr>))
     = [(''product_analyzer.py'', [''amazon'', ''tea'', ''/out'']),
        (''image_scraper.py'', [''/out'']), (''text_extractor.py'', [''/out'']),
        (''qr_orchestrator.py'', [''/out'']), (''credential_check.py'', [''/out'']),
        (''exception_reporter.py'', [''/out'', ''a@b.c''])]"
    unfolding run_in_background_facts s
    by (simp add: pipeline_def js_or_def params_amazon_def l script_result_def
          env_case_sensitive_def env_ok_def)
  show ?thesis unfolding lower_amazon 1 2 3 4 by simp
qed

text \<open>
  C10, amended: writing the site of a request in lower case changes neither the response
  of \<^verbatim>\<open>POST\<close> nor the branch \<^verbatim>\<open>runWorkflow\<close> takes: the stages have the same steps and
  scripts in the same order. In the Blinkit branch the whole run is the same. In the
  Amazon branch the first task is \<^verbatim>\<open>product_analyzer.py\<close> for both spellings, with the site
  as the request spells it as its first argument; when the world runs the same process
  for both spellings, the two runs end at the same step, settle the same way, leave the
  same server but for that argument in the record of the child processes, and start the
  same scripts in the same order.
\<close>

theorem site_case_insensitive:
  "fst (POST e st (Some (b\<lparr>body_scrapeSite := map_option toLowerCase (body_scrapeSite b)\<rparr>)))
     = fst (POST e st (Some b)) \<and>
   map (\<lambda>s. (stage_step s, stage_scripts s)) (pipeline (p\<lparr>scrapeSite := toLowerCase (scrapeSite p)\<rparr>))
     = map (\<lambda>s. (stage_step s, stage_scripts s)) (pipeline p) \<and>
   (toLowerCase (scrapeSite p) = ''blinkit'' \<longrightarrow>
      runWorkflow e this st (p\<lparr>scrapeSite := toLowerCase (scrapeSite p)\<rparr>) = runWorkflow e this st p) \<and>
   (toLowerCase (scrapeSite p) \<noteq> ''blinkit'' \<longrightarrow>
      (\<exists>later. spawned (fst (snd (runWorkflow e this st p))) =
         spawned st @
         (''product_analyzer.py'', [scrapeSite p, productName p, outputFolder p]) # later) \<and>
      (\<exists>later. spawned (fst (snd (runWorkflow e this st
                  (p\<lparr>scrapeSite := toLowerCase (scrapeSite p)\<rparr>)))) =
         spawned st @
         (''product_analyzer.py'', [toLowerCase (scrapeSite p), productName p, outputFolder p])
         # later)) \<and>
   (world e ''product_analyzer.py'' [toLowerCase (scrapeSite p), productName p, outputFolder p]
      = world e ''product_analyzer.py'' [scrapeSite p, productName p, outputFolder p] \<longrightarrow>
      fst (runWorkflow e this st (p\<lparr>scrapeSite := toLowerCase (scrapeSite p)\<rparr>))
        = fst (runWorkflow e this st p) \<and>
      snd (snd (runWorkflow e this st (p\<lparr>scrapeSite := toLowerCase (scrapeSite p)\<rparr>)))
        = snd (snd (runWorkflow e this st p)) \<and>
      fst (snd (runWorkflow e this st (p\<lparr>scrapeSite := toLowerCase (scrapeSite p)\<rparr>)))
        = (fst (snd (runWorkflow e this st p)))
            \<lparr>spawned := spawned (fst (snd (runWorkflow e this st
                 (p\<lparr>scrapeSite := toLowerCase (scrapeSite p)\<rparr>))))\<rparr> \<and>
      map fst (spawned (fst (snd (runWorkflow e this st
                 (p\<lparr>scrapeSite := toLowerCase (scrapeSite p)\<rparr>)))))
        = map fst (spawned (fst (snd (runWorkflow e this st p)))))"
proof (intro conjI impI)
  let ?b = "b\<lparr>body_scrapeSite := map_option toLowerCase (body_scrapeSite b)\<rparr>"
  let ?p = "p\<lparr>scrapeSite := toLowerCase (scrapeSite p)\<rparr>"
  show "fst (POST e st (Some ?b)) = fst (POST e st (Some b))"
  proof (cases "valid_body b")
    case True
    then have "valid_body ?b" by (simp add: valid_body_lower)
    from POST_valid [OF this, of e st] POST_valid [OF True, of e st]
    show ?thesis
      by (cases "create_output_folder e st (resolve e (the (body_outputFolder b)))") simp_all
  next
    case False
    then have nv: "\<not> valid_body ?b" by (simp add: valid_body_lower)
    show ?thesis
      unfolding POST_invalid_response [OF False] POST_invalid_response [OF nv]
      by (simp add: falsy_lower)
  qed
  show "map (\<lambda>s. (stage_step s, stage_scripts s)) (pipeline ?p)
     = map (\<lambda>s. (stage_step s, stage_scripts s)) (pipeline p)"
    by (rule pipeline_lower)
  {
    assume "toLowerCase (scrapeSite p) = ''blinkit''"
    then show "runWorkflow e this st ?p = runWorkflow e this st p"
      using pipeline_lower_blinkit [of p] runWorkflow_pipeline by blast
  }
  {
    assume n: "toLowerCase (scrapeSite p) \<noteq> ''blinkit''"
    show "\<exists>later. spawned (fst (snd (runWorkflow e this st p))) =
         spawned st @
         (''product_analyzer.py'', [scrapeSite p, productName p, outputFolder p]) # later"
      using n by (rule runWorkflow_first)
    have "toLowerCase (scrapeSite ?p) \<noteq> ''blinkit''" using n by (simp add: toLowerCase_idem)
    from runWorkflow_first [OF this, of e this st]
    show "\<exists>later. spawned (fst (snd (runWorkflow e this st ?p))) =
         spawned st @
         (''product_analyzer.py'', [toLowerCase (scrapeSite p), productName p, outputFolder p])
         # later"
      by simp
  }
  {
    assume w: "world e ''product_analyzer.py'' [toLowerCase (scrapeSite p), productName p, outputFolder p]
      = world e ''product_analyzer.py'' [scrapeSite p, productName p, outputFolder p]"
    note a = pipeline_alike [OF w]
    obtain this1 st1 r1 where 1: "runWorkflow e this st p = (this1, st1, r1)"
      by (cases "runWorkflow e this st p")
    from runWorkflow_alike [OF a, of this st] obtain z
      where 2: "runWorkflow e this st ?p = (this1, st1\<lparr>spawned := z\<rparr>, r1)"
      unfolding 1 by auto
    show "fst (runWorkflow e this st ?p) = fst (runWorkflow e this st p)"
      by (simp add: 1 2)
    show "snd (snd (runWorkflow e this st ?p)) = snd (snd (runWorkflow e this st p))"
      by (simp add: 1 2)
    show "fst (snd (runWorkflow e this st ?p))
        = (fst (snd (runWorkflow e this st p)))
            \<lparr>spawned := spawned (fst (snd (runWorkflow e this st ?p)))\<rparr>"
      by (simp add: 1 2)
    show "map fst (spawned (fst (snd (runWorkflow e this st ?p))))
        = map fst (spawned (fst (snd (runWorkflow e this st p))))"
      unfolding runWorkflow_facts(3) using attempted_alike [OF a] by simp
  }
qed

theorem site_case_insensitive_witness:
  "toLowerCase (scrapeSite params_blinkit) = ''blinkit'' \<and>
   fst (POST env_ok state_out (Some (body_blinkit\<lparr>body_scrapeSite := Some ''blinkit''\<rparr>)))
     = fst (POST env_ok state_out (Some body_blinkit)) \<and>
   fst (POST env_ok state_out (Some body_blinkit))
     = Success ''scrape_5_abc''
         ''Scraping workflow started successfully. You will receive an email when complete.'' \<and>
   runWorkflow env_ok (new_ScrapingOrchestrator ''scrape_5_abc'') state_out
       (params_blinkit\<lparr>scrapeSite := ''blinkit''\<rparr>)
     = runWorkflow env_ok (new_ScrapingOrchestrator ''scrape_5_abc'') state_out params_blinkit \<and>
   toLowerCase (scrapeSite params_amazon) \<noteq> ''blinkit'' \<and>
   snd (snd (runWorkflow env_ok (new_ScrapingOrchestrator ''scrape_5_abc'') state_out
       (params_amazon\<lparr>scrapeSite := ''amazon''\<rparr>)))
     = snd (snd (runWorkflow env_ok (new_ScrapingOrchestrator ''scrape_5_abc'') state_out
         params_amazon)) \<and>
   map fst (spawned (fst (snd (runWorkflow env_ok (new_ScrapingOrchestrator ''scrape_5_abc'')
       state_out (params_amazon\<lparr>scrapeSite := ''amazon''\<rparr>)))))
     = map fst (spawned (fst (snd (runWorkflow env_ok (new_ScrapingOrchestrator ''scrape_5_abc'')
         state_out params_amazon)))) \<and>
   (\<exists>later. spawned (fst (snd (runWorkflow env_ok (new_ScrapingOrchestrator ''scrape_5_abc'')
       state_out (params_amazon\<lparr>scrapeSite := ''amazon''\<rparr>))))
     = (''product_analyzer.py'', [''amazon'', ''tea'', ''/out'']) # later)"
proof -
  let ?o = "new_ScrapingOrchestrator ''scrape_5_abc''"
  have l: "toLowerCase (scrapeSite params_blinkit) = ''blinkit''"
    "map_option toLowerCase (body_scrapeSite body_blinkit) = Some ''blinkit''"
    by (simp_all add: params_blinkit_def body_blinkit_def lower_blinkit)
  have la: "toLowerCase (scrapeSite params_amazon) = ''amazon''"
    by (simp add: params_amazon_def lower_amazon)
  have v: "valid_body body_blinkit"
    by (simp add: valid_body_def body_blinkit_def falsy_def email_ok lower_blinkit supportedSites_def)
  have a: "fst (POST env_ok state_out (Some body_blinkit))
     = Success ''scrape_5_abc''
         ''Scraping workflow started successfully. You will receive an email when complete.''"
    unfolding POST_valid [OF v]
    by (simp add: create_output_folder_def make_sessionId_def digit_def example_defs)
  note t = site_case_insensitive [where e = env_ok and st = state_out and b = body_blinkit
        and p = params_blinkit and this = ?o, unfolded l]
  have w: "world env_ok ''product_analyzer.py''
             [''amazon'', productName params_amazon, outputFolder params_amazon]
         = world env_ok ''product_analyzer.py''
             [scrapeSite params_amazon, productName params_amazon, outputFolder params_amazon]"
    by (simp add: env_ok_def)
  note u = site_case_insensitive [where e = env_ok and st = state_out and b = body_amazon
        and p = params_amazon and this = ?o, unfolded la]
  have n: "toLowerCase (scrapeSite params_amazon) \<noteq> ''blinkit''" unfolding la by simp
  have s: "spawned state_out = []" by (simp add: state_out_def initial_state_def)
  have 1: "snd (snd (runWorkflow env_ok ?o state_out (params_amazon\<lparr>scrapeSite := ''amazon''\<rparr>)))
     = snd (snd (runWorkflow env_ok ?o state_out params_amazon))"
    using u w by blast
  have 2: "map fst (spawned (fst (snd (runWorkflow env_ok ?o
       state_out (params_amazon\<lparr>scrapeSite := ''amazon''\<rparr>)))))
     = map fst (spawned (fst (snd (runWorkflow env_ok ?o state_out params_amazon))))"
    using u w by blast
  have "\<exists>later. spawned (fst (snd (runWorkflow env_ok ?o
       state_out (params_amazon\<lparr>scrapeSite := ''amazon''\<rparr>))))
     = spawned state_out @
       (''product_analyzer.py'', [''amazon'', productName params_amazon,
          outputFolder params_amazon]) # later"
    using u by simp
  then have 3: "\<exists>later. spawned (fst (snd (runWorkflow env_ok ?o
       state_out (params_amazon\<lparr>scrapeSite := ''amazon''\<rparr>))))
     = (''product_analyzer.py'', [''amazon'', ''tea'', ''/out'']) # later"
    unfolding s by (simp add: params_amazon_def)
  show ?thesis using l(1) a t n 1 2 3 by simp
qed

subsection \<open>C7: which requests are accepted\<close>

text \<open>
  C7, as stated, fails in two ways. A body that passes the three checks is still rejected
  when its output folder does not exist and cannot be created: in the world
  \<open>env_readonly\<close> the answer to \<open>body_amazon\<close> is status 400. And the session id of an
  accepted request need not be fresh: it is made of the clock and a random suffix and is
  not compared with the registry, which in \<open>state_subscribed\<close> already holds a subscriber
  for the id the request is given.
\<close>

theorem POST_validation_counterexample:
  "\<not> falsy (body_scrapeSite body_amazon) \<and> \<not> falsy (body_productName body_amazon) \<and>
   \<not> falsy (body_outputFolder body_amazon) \<and> \<not> falsy (body_recipientEmail body_amazon) \<and>
   emailRegex_test (the (body_recipientEmail body_amazon)) \<and>
   toLowerCase (the (body_scrapeSite body_amazon)) \<in> set supportedSites \<and>
   POST env_readonly initial_state (Some body_amazon)
     = (ErrorResponse 400
          (''Failed to create output folder at '' @ [CHR 0x22] @ ''/out'' @ [CHR 0x22]
           @ '': EACCES: permission denied''),
        initial_state) \<and>
   map_of (progressStreams state_subscribed) ''scrape_5_abc'' = Some 0 \<and>
   fst (POST env_ok state_subscribed (Some body_amazon))
     = Success ''scrape_5_abc''
         ''Scraping workflow started successfully. You will receive an email when complete.''"
proof -
  have v: "valid_body body_amazon"
    by (simp add: valid_body_def body_amazon_def falsy_def email_ok lower_amazon supportedSites_def)
  have 1: "POST env_readonly initial_state (Some body_amazon)
     = (ErrorResponse 400
          (''Failed to create output folder at '' @ [CHR 0x22] @ ''/out'' @ [CHR 0x22]
           @ '': EACCES: permission denied''),
        initial_state)"
    unfolding POST_valid [OF v]
    by (simp add: create_output_folder_def env_readonly_def env_ok_def initial_state_def
          body_amazon_def)
  have 2: "map_of (progressStreams state_subscribed) ''scrape_5_abc'' = Some 0"
    by (simp add: state_subscribed_def state_out_def initial_state_def GET_def
          controller_enqueue_def)
  have f: "create_output_folder env_ok state_subscribed ''/out'' = Inr state_subscribed"
    by (simp add: create_output_folder_def state_subscribed_def state_out_def initial_state_def
          GET_def controller_enqueue_def)
  have 3: "fst (POST env_ok state_subscribed (Some body_amazon))
     = Success ''scrape_5_abc''
         ''Scraping workflow started successfully. You will receive an email when complete.''"
    unfolding POST_valid [OF v]
    by (simp add: body_amazon_def env_ok_def f [unfolded env_ok_def] make_sessionId_def digit_def)
  show ?thesis
    using v 1 2 3 unfolding valid_body_def by simp
qed

text \<open>
  C7, amended, for a body whose fields are strings or absent. \<^verbatim>\<open>POST\<close> rejects a request, and
  then leaves the server as it was (no session id, no entry in the registry, no child
  process), exactly in these cases: the body cannot be parsed (status 500); a field is
  absent or empty, the e-mail address is not of the right shape, or the site in lower
  case is not a supported one (status 400, each with its message); the output folder
  does not exist and cannot be created (status 400). Every other request is answered
  with the session id made of the clock and the random suffix, which is not compared
  with the registry, and it is answered at once, without waiting for the workflow: when
  \<^verbatim>\<open>POST\<close> returns, the run has started its first child process and no more, what follows
  comes after, and the response is the same whatever the scripts do.
\<close>

theorem POST_response:
  "(request = None \<longrightarrow> POST e st request = (ErrorResponse 500 ''Internal server error'', st)) \<and>
   (\<forall>b. request = Some b \<and> \<not> valid_body b \<longrightarrow>
      POST e st request =
        (ErrorResponse 400
          (if falsy (body_scrapeSite b) \<or> falsy (body_productName b)
              \<or> falsy (body_outputFolder b) \<or> falsy (body_recipientEmail b)
           then ''Missing required fields''
           else if \<not> emailRegex_test (the (body_recipientEmail b)) then ''Invalid email format''
           else ''Supported sites are: Amazon, Blinkit''), st)) \<and>
   (\<forall>b msg. request = Some b \<and> valid_body b \<and>
      resolve e (the (body_outputFolder b)) \<notin> set (folders st) \<and>
      mkdir_error e (resolve e (the (body_outputFolder b))) = Some msg \<longrightarrow>
      POST e st request =
        (ErrorResponse 400
           (''Failed to create output folder at '' @ [CHR 0x22]
            @ resolve e (the (body_outputFolder b)) @ [CHR 0x22] @ '': '' @ msg), st)) \<and>
   (\<forall>b. request = Some b \<and> valid_body b \<and>
      (resolve e (the (body_outputFolder b)) \<in> set (folders st) \<or>
       mkdir_error e (resolve e (the (body_outputFolder b))) = None) \<longrightarrow>
      fst (POST e st request) =
        Success (make_sessionId e)
          (''Scraping workflow started successfully. ''
           @ ''You will receive an email when complete.'') \<and>
      (\<exists>script args later.
         spawned (POST_returned e st request) = spawned st @ [(script, args)] \<and>
         spawned (snd (POST e st request)) = spawned (POST_returned e st request) @ later) \<and>
      (\<forall>a. \<exists>more. chunks_at (snd (POST e st request)) a
                    = chunks_at (POST_returned e st request) a @ more)) \<and>
   ((\<exists>sid m. fst (POST e st request) = Success sid m) \<longleftrightarrow>
      (\<exists>b. request = Some b \<and> valid_body b \<and>
           (resolve e (the (body_outputFolder b)) \<in> set (folders st) \<or>
            mkdir_error e (resolve e (the (body_outputFolder b))) = None))) \<and>
   (\<forall>c m. fst (POST e st request) = ErrorResponse c m \<longrightarrow>
      snd (POST e st request) = st \<and> POST_returned e st request = st) \<and>
   make_sessionId e = ''scrape_'' @ decimal (now e) @ ''_'' @ random_suffix e \<and>
   fst (POST e (st\<lparr>streams := ss, progressStreams := ps, timers := ts\<rparr>) request)
     = fst (POST e st request) \<and>
   fst (POST (e\<lparr>world := w\<rparr>) st request) = fst (POST e st request)"
proof -
  have none: "request = None \<longrightarrow>
      POST e st request = (ErrorResponse 500 ''Internal server error'', st)"
    by (simp add: POST_def)
  have invalid: "\<forall>b. request = Some b \<and> \<not> valid_body b \<longrightarrow>
      POST e st request =
        (ErrorResponse 400
          (if falsy (body_scrapeSite b) \<or> falsy (body_productName b)
              \<or> falsy (body_outputFolder b) \<or> falsy (body_recipientEmail b)
           then ''Missing required fields''
           else if \<not> emailRegex_test (the (body_recipientEmail b)) then ''Invalid email format''
           else ''Supported sites are: Amazon, Blinkit''), st)"
    using POST_rejects by blast
  have folder: "\<forall>b msg. request = Some b \<and> valid_body b \<and>
      resolve e (the (body_outputFolder b)) \<notin> set (folders st) \<and>
      mkdir_error e (resolve e (the (body_outputFolder b))) = Some msg \<longrightarrow>
      POST e st request =
        (ErrorResponse 400
           (''Failed to create output folder at '' @ [CHR 0x22]
            @ resolve e (the (body_outputFolder b)) @ [CHR 0x22] @ '': '' @ msg), st)"
  proof (intro allI impI)
    fix b msg
    assume a: "request = Some b \<and> valid_body b \<and>
      resolve e (the (body_outputFolder b)) \<notin> set (folders st) \<and>
      mkdir_error e (resolve e (the (body_outputFolder b))) = Some msg"
    then have v: "valid_body b" and r: "request = Some b" by simp_all
    have "create_output_folder e st (resolve e (the (body_outputFolder b))) = Inl msg"
      using a by (simp add: create_output_folder_def)
    then show "POST e st request =
        (ErrorResponse 400
           (''Failed to create output folder at '' @ [CHR 0x22]
            @ resolve e (the (body_outputFolder b)) @ [CHR 0x22] @ '': '' @ msg), st)"
      unfolding r POST_valid [OF v] by simp
  qed
  have accepted: "\<forall>b. request = Some b \<and> valid_body b \<and>
      (resolve e (the (body_outputFolder b)) \<in> set (folders st) \<or>
       mkdir_error e (resolve e (the (body_outputFolder b))) = None) \<longrightarrow>
      fst (POST e st request) =
        Success (make_sessionId e)
          (''Scraping workflow started successfully. ''
           @ ''You will receive an email when complete.'') \<and>
      (\<exists>script args later.
         spawned (POST_returned e st request) = spawned st @ [(script, args)] \<and>
         spawned (snd (POST e st request)) = spawned (POST_returned e st request) @ later) \<and>
      (\<forall>a. \<exists>more. chunks_at (snd (POST e st request)) a
                    = chunks_at (POST_returned e st request) a @ more)"
  proof (intro allI impI)
    fix b
    assume a: "request = Some b \<and> valid_body b \<and>
      (resolve e (the (body_outputFolder b)) \<in> set (folders st) \<or>
       mkdir_error e (resolve e (the (body_outputFolder b))) = None)"
    then have v: "valid_body b" and r: "request = Some b" by simp_all
    let ?f = "resolve e (the (body_outputFolder b))"
    let ?ub = "\<lparr>scrapeSite = the (body_scrapeSite b), productName = the (body_productName b),
                 outputFolder = ?f, recipientEmail = the (body_recipientEmail b)\<rparr>"
    let ?sid = "make_sessionId e"
    from a obtain st0 where f: "create_output_folder e st ?f = Inr st0"
      and sp: "spawned st0 = spawned st"
      by (cases "?f \<in> set (folders st)") (auto simp: create_output_folder_def)
    have p: "POST e st request =
        (Success ?sid (''Scraping workflow started successfully. ''
           @ ''You will receive an email when complete.''),
         run_in_background e ?sid st0 ?ub)"
      unfolding r POST_valid [OF v] f by simp
    have ret: "POST_returned e st request
        = runWorkflow_suspended (new_ScrapingOrchestrator ?sid) st0 ?ub"
      unfolding POST_returned_def p by (simp add: r f Let_def)
    have 1: "\<exists>script args later.
         spawned (POST_returned e st request) = spawned st @ [(script, args)] \<and>
         spawned (snd (POST e st request)) = spawned (POST_returned e st request) @ later"
      using run_in_background_resumes [of ?sid st0 ?ub e] unfolding ret p sp by auto
    have 2: "\<forall>a. \<exists>more. chunks_at (snd (POST e st request)) a
                    = chunks_at (POST_returned e st request) a @ more"
    proof
      fix a
      from run_in_background_resumes [of ?sid st0 ?ub e a]
      show "\<exists>more. chunks_at (snd (POST e st request)) a
                    = chunks_at (POST_returned e st request) a @ more"
        unfolding ret p by auto
    qed
    show "fst (POST e st request) =
        Success (make_sessionId e)
          (''Scraping workflow started successfully. ''
           @ ''You will receive an email when complete.'') \<and>
      (\<exists>script args later.
         spawned (POST_returned e st request) = spawned st @ [(script, args)] \<and>
         spawned (snd (POST e st request)) = spawned (POST_returned e st request) @ later) \<and>
      (\<forall>a. \<exists>more. chunks_at (snd (POST e st request)) a
                    = chunks_at (POST_returned e st request) a @ more)"
      using p 1 2 by simp
  qed
  have iff: "(\<exists>sid m. fst (POST e st request) = Success sid m) \<longleftrightarrow>
      (\<exists>b. request = Some b \<and> valid_body b \<and>
           (resolve e (the (body_outputFolder b)) \<in> set (folders st) \<or>
            mkdir_error e (resolve e (the (body_outputFolder b))) = None))"
  proof
    assume s: "\<exists>sid m. fst (POST e st request) = Success sid m"
    then obtain b where r: "request = Some b" using none by (cases request) auto
    have v: "valid_body b" using s invalid r by (cases "valid_body b") auto
    have "resolve e (the (body_outputFolder b)) \<in> set (folders st) \<or>
            mkdir_error e (resolve e (the (body_outputFolder b))) = None"
    proof (rule ccontr)
      assume "\<not> ?thesis"
      then obtain msg where "resolve e (the (body_outputFolder b)) \<notin> set (folders st)"
        "mkdir_error e (resolve e (the (body_outputFolder b))) = Some msg"
        by auto
      with folder r v s show False by auto
    qed
    with r v show "\<exists>b. request = Some b \<and> valid_body b \<and>
           (resolve e (the (body_outputFolder b)) \<in> set (folders st) \<or>
            mkdir_error e (resolve e (the (body_outputFolder b))) = None)"
      by blast
  next
    assume "\<exists>b. request = Some b \<and> valid_body b \<and>
           (resolve e (the (body_outputFolder b)) \<in> set (folders st) \<or>
            mkdir_error e (resolve e (the (body_outputFolder b))) = None)"
    with accepted show "\<exists>sid m. fst (POST e st request) = Success sid m" by blast
  qed
  have rejected: "\<forall>c m. fst (POST e st request) = ErrorResponse c m \<longrightarrow>
      snd (POST e st request) = st \<and> POST_returned e st request = st"
  proof (intro allI impI)
    fix c m
    assume er: "fst (POST e st request) = ErrorResponse c m"
    have ret: "POST_returned e st request = st" unfolding POST_returned_def er by simp
    have "snd (POST e st request) = st"
    proof (cases request)
      case None
      then show ?thesis using none by simp
    next
      case (Some b)
      show ?thesis
      proof (cases "valid_body b")
        case False
        then show ?thesis using invalid Some by simp
      next
        case True
        show ?thesis
        proof (cases "create_output_folder e st (resolve e (the (body_outputFolder b)))")
          case (Inl msg)
          then show ?thesis unfolding Some POST_valid [OF True] by simp
        next
          case (Inr st0)
          then show ?thesis using er unfolding Some POST_valid [OF True] by simp
        qed
      qed
    qed
    with ret show "snd (POST e st request) = st \<and> POST_returned e st request = st" by simp
  qed
  show ?thesis
    using none invalid folder accepted iff rejected POST_registry POST_world
    by (simp only: make_sessionId_def)
qed

theorem POST_response_witness:
  "valid_body body_amazon \<and>
   resolve env_ok (the (body_outputFolder body_amazon)) \<in> set (folders state_out) \<and>
   fst (POST env_ok state_out (Some body_amazon))
     = Success ''scrape_5_abc''
         ''Scraping workflow started successfully. You will receive an email when complete.'' \<and>
   length (spawned (POST_returned env_ok state_out (Some body_amazon))) = 1 \<and>
   length (spawned (snd (POST env_ok state_out (Some body_amazon)))) = 6 \<and>
   POST env_readonly initial_state (Some body_amazon)
     = (ErrorResponse 400
          (''Failed to create output folder at '' @ [CHR 0x22] @ ''/out'' @ [CHR 0x22]
           @ '': EACCES: permission denied''),
        initial_state) \<and>
   POST env_ok state_out None = (ErrorResponse 500 ''Internal server error'', state_out) \<and>
   \<not> valid_body (body_amazon\<lparr>body_recipientEmail := Some (''a'' @ [CHR 0xA0] @ ''@b.c'')\<rparr>) \<and>
   POST env_ok state_out
       (Some (body_amazon\<lparr>body_recipientEmail := Some (''a'' @ [CHR 0xA0] @ ''@b.c'')\<rparr>))
     = (ErrorResponse 400 ''Invalid email format'', state_out)"
proof -
  let ?bad = "body_amazon\<lparr>body_recipientEmail := Some (''a'' @ [CHR 0xA0] @ ''@b.c'')\<rparr>"
  have v: "valid_body body_amazon"
    by (simp add: valid_body_def body_amazon_def falsy_def email_ok lower_amazon supportedSites_def)
  have f: "resolve env_ok (the (body_outputFolder body_amazon)) \<in> set (folders state_out)"
    by (simp add: example_defs)
  have n: "resolve env_readonly (the (body_outputFolder body_amazon)) \<notin> set (folders initial_state)"
    "mkdir_error env_readonly (resolve env_readonly (the (body_outputFolder body_amazon)))
       = Some ''EACCES: permission denied''"
    "resolve env_readonly (the (body_outputFolder body_amazon)) = ''/out''"
    by (simp_all add: example_defs)
  have sid: "make_sessionId env_ok = ''scrape_5_abc''"
    by (simp add: make_sessionId_def env_ok_def digit_def)
  have e: "\<not> emailRegex_test (''a'' @ [CHR 0xA0] @ ''@b.c'')"
    by (simp add: emailRegex_test_def emailRegex_def notSpaceAt_def isSpace_def)
  have nf: "\<not> falsy (body_scrapeSite ?bad)" "\<not> falsy (body_productName ?bad)"
    "\<not> falsy (body_outputFolder ?bad)" "\<not> falsy (body_recipientEmail ?bad)"
    by (simp_all add: body_amazon_def falsy_def)
  have nv: "\<not> valid_body ?bad" using e by (simp add: valid_body_def)
  have s: "spawned state_out = []" by (simp add: state_out_def initial_state_def)
  note a = POST_response [of "Some body_amazon" env_ok state_out "[]" "[]" "[]" "world env_ok"]
  note b = POST_response [of "Some body_amazon" env_readonly initial_state "[]" "[]" "[]"
      "world env_ok"]
  note c = POST_response [of None env_ok state_out "[]" "[]" "[]" "world env_ok"]
  note d = POST_response [of "Some ?bad" env_ok state_out "[]" "[]" "[]" "world env_ok"]
  have 1: "fst (POST env_ok state_out (Some body_amazon))
     = Success ''scrape_5_abc''
         ''Scraping workflow started successfully. You will receive an email when complete.''"
    using a v f sid by simp
  have "\<exists>script args.
      spawned (POST_returned env_ok state_out (Some body_amazon)) = spawned state_out @ [(script, args)]"
    using a v f by blast
  then have 2: "length (spawned (POST_returned env_ok state_out (Some body_amazon))) = 1"
    unfolding s by auto
  have f0: "create_output_folder env_ok state_out ''/out'' = Inr state_out"
    by (simp add: create_output_folder_def state_out_def)
  have r0: "resolve env_ok ''/out'' = ''/out''" by (simp add: env_ok_def)
  have p0: "snd (POST env_ok state_out (Some body_amazon))
      = run_in_background env_ok (make_sessionId env_ok) state_out params_amazon"
    unfolding POST_valid [OF v] by (simp add: body_amazon_def params_amazon_def r0 f0)
  have "length (spawned (run_in_background env_ok (make_sessionId env_ok) state_out
      params_amazon)) = 6"
    unfolding run_in_background_facts s
    by (simp add: pipeline_amazon script_result_def env_ok_def)
  then have 3: "length (spawned (snd (POST env_ok state_out (Some body_amazon)))) = 6"
    unfolding p0 .
  have 4: "POST env_readonly initial_state (Some body_amazon)
     = (ErrorResponse 400
          (''Failed to create output folder at '' @ [CHR 0x22] @ ''/out'' @ [CHR 0x22]
           @ '': EACCES: permission denied''),
        initial_state)"
    using b v n by simp
  have 5: "POST env_ok state_out None = (ErrorResponse 500 ''Internal server error'', state_out)"
    using c by simp
  have 6: "POST env_ok state_out (Some ?bad) = (ErrorResponse 400 ''Invalid email format'', state_out)"
    using d nv nf e by simp
  show ?thesis using v f 1 2 3 4 5 nv 6 by blast
qed

end
